(* ===== verification/Prelude.thy ===== *)
theory Prelude
  imports Main "HOL-Library.Word" "HOL-Library.Multiset"
begin

text \<open>
  Shared vocabulary of the development.
  \<^item> The machine integer types of the Rust sources: \<open>u32\<close> (token ids), \<open>usize\<close>
    (sizes, 64-bit target) and \<open>byte\<close> (header bytes).
  \<^item> The error taxonomy: \<open>error\<close> names where an \<open>anyhow::Error\<close> of the sources comes
    from (hf-hub, the file system, serde_json, tokenizers, candle).
  \<^item> \<open>'a outcome\<close>: what a Rust call does, either \<open>Ok\<close>, an \<open>Err\<close> propagated
    by \<open>?\<close>, or a panic (\<open>Panicked\<close>) raised by \<open>unwrap\<close> on an \<open>Err\<close>.
    \<open>and_then\<close> is the \<open>?\<close> operator: an error or a panic stops the rest.
  \<^item> \<open>'a io\<close>: a computation that also appends to standard output (the
    \<open>println!\<close> lines of the sources, as values of \<open>log\<close>; elapsed times are not
    modelled since they are not a function of the inputs).
\<close>

named_theorems outcome_simps "equations of the outcome combinators"
named_theorems io_simps "equations of the io combinators"

type_synonym u32 = "32 word"
type_synonym usize = "64 word"
type_synonym byte = "8 word"

datatype error =
    ApiError          \<comment> \<open>hf_hub: \<open>Api::new\<close>, \<open>ApiRepo::get\<close> (artifact missing or unreachable)\<close>
  | IoError           \<comment> \<open>\<open>std::fs::read_to_string\<close>\<close>
  | JsonError         \<comment> \<open>\<open>serde_json::from_str\<close>\<close>
  | TokenizerError    \<comment> \<open>tokenizers, turned into \<open>anyhow\<close> by \<open>map_err(E::msg)\<close>\<close>
  | TruncationParamError  \<comment> \<open>tokenizers: \<open>with_truncation\<close> rejects its parameters\<close>
  | CandleError       \<comment> \<open>candle: tensor construction, weight loading, forward pass\<close>
  | UnexpectedNumberOfDims  \<comment> \<open>candle: \<open>to_vec3\<close> on a tensor whose rank is not 3\<close>

datatype 'a outcome = Ok 'a | Err error | Panicked error

fun and_then :: "'a outcome \<Rightarrow> ('a \<Rightarrow> 'b outcome) \<Rightarrow> 'b outcome" where
  "and_then (Ok x) f = f x"
| "and_then (Err e) f = Err e"
| "and_then (Panicked e) f = Panicked e"

text \<open>\<open>Result::unwrap\<close>: an \<open>Err\<close> becomes a panic.\<close>

fun unwrap :: "'a outcome \<Rightarrow> 'a outcome" where
  "unwrap (Ok x) = Ok x"
| "unwrap (Err e) = Panicked e"
| "unwrap (Panicked e) = Panicked e"

fun is_panic :: "'a outcome \<Rightarrow> bool" where
  "is_panic (Panicked e) = True"
| "is_panic _ = False"

datatype log =
    LoadedAndEncoded        \<comment> \<open>model.rs: \<open>println!("Loaded and encoded ...")\<close>\<close>
  | ForwardPassTook         \<comment> \<open>model.rs: \<open>println!("Forward pass took ...")\<close>\<close>
  | Predicting string       \<comment> \<open>main.rs: \<open>println!("Predicting: {:?}", prompt.text)\<close>\<close>
  | PayloadSize usize       \<comment> \<open>main.rs: \<open>println!("Payload size: {:?}", payload_size)\<close>\<close>
  | RequestTook             \<comment> \<open>main.rs: \<open>println!("Request took: ...")\<close>\<close>
  | CurrentPid              \<comment> \<open>main.rs: \<open>println!("Current PID: ...")\<close>\<close>

type_synonym 'a io = "log list \<Rightarrow> 'a outcome \<times> log list"

definition io_return :: "'a \<Rightarrow> 'a io" where
  "io_return x out = (Ok x, out)"

definition io_lift :: "'a outcome \<Rightarrow> 'a io" where
  "io_lift r out = (r, out)"

definition println :: "log \<Rightarrow> unit io" where
  "println l out = (Ok (), out @ [l])"

definition io_bind :: "'a io \<Rightarrow> ('a \<Rightarrow> 'b io) \<Rightarrow> 'b io" where
  "io_bind m f out =
     (case m out of
        (Ok x, out') \<Rightarrow> f x out'
      | (Err e, out') \<Rightarrow> (Err e, out')
      | (Panicked e, out') \<Rightarrow> (Panicked e, out'))"

definition io_unwrap :: "'a io \<Rightarrow> 'a io" where
  "io_unwrap m out = (case m out of (r, out') \<Rightarrow> (unwrap r, out'))"

text \<open>
  Awaiting a future that returns a \<open>Result\<close> gives the result as a value, \<open>Ok\<close> or
  \<open>Err\<close>; a panic is not a value and keeps unwinding.
\<close>

definition io_attempt :: "'a io \<Rightarrow> 'a outcome io" where
  "io_attempt m out =
     (case m out of
        (Panicked e, out') \<Rightarrow> (Panicked e, out')
      | (r, out') \<Rightarrow> (Ok r, out'))"

text \<open>Output is only ever appended to: no step of an \<open>io\<close> computation erases a line.\<close>

definition appends :: "'a io \<Rightarrow> bool" where
  "appends m \<longleftrightarrow> (\<forall>out. \<exists>new. snd (m out) = out @ new)"

text \<open>Rust's \<open>checked_mul\<close> and \<open>checked_add\<close> on unsigned integers: \<open>None\<close> on overflow.\<close>

definition checked_mul :: "'a::len word \<Rightarrow> 'a word \<Rightarrow> 'a word option" where
  "checked_mul a b = (if unat a * unat b < 2 ^ LENGTH('a) then Some (a * b) else None)"

definition checked_add :: "'a::len word \<Rightarrow> 'a word \<Rightarrow> 'a word option" where
  "checked_add a b = (if unat a + unat b < 2 ^ LENGTH('a) then Some (a + b) else None)"

subsection \<open>Outcome lemmas\<close>

lemma and_then_Ok_iff [outcome_simps]:
  "and_then m f = Ok y \<longleftrightarrow> (\<exists>x. m = Ok x \<and> f x = Ok y)"
  by (cases m) auto

lemma and_then_Err_iff [outcome_simps]:
  "and_then m f = Err e \<longleftrightarrow> m = Err e \<or> (\<exists>x. m = Ok x \<and> f x = Err e)"
  by (cases m) auto

lemma and_then_Panicked_iff [outcome_simps]:
  "and_then m f = Panicked e \<longleftrightarrow> m = Panicked e \<or> (\<exists>x. m = Ok x \<and> f x = Panicked e)"
  by (cases m) auto

lemma and_then_Ok_right [outcome_simps]: "and_then m Ok = m"
  by (cases m) auto

lemma and_then_assoc [outcome_simps]:
  "and_then (and_then m f) g = and_then m (\<lambda>x. and_then (f x) g)"
  by (cases m) auto

lemma and_then_no_panic:
  "\<not> is_panic m \<Longrightarrow> (\<And>x. m = Ok x \<Longrightarrow> \<not> is_panic (f x)) \<Longrightarrow> \<not> is_panic (and_then m f)"
  by (cases m) auto

lemma unwrap_not_Err [outcome_simps]: "unwrap m \<noteq> Err e"
  by (cases m) auto

lemma unwrap_Ok_iff [outcome_simps]: "unwrap m = Ok x \<longleftrightarrow> m = Ok x"
  by (cases m) auto

lemma is_panic_iff: "is_panic m \<longleftrightarrow> (\<exists>e. m = Panicked e)"
  by (cases m) auto

subsection \<open>IO lemmas\<close>

lemma io_return_apply [io_simps]: "io_return x out = (Ok x, out)"
  by (simp add: io_return_def)

lemma io_lift_apply [io_simps]: "io_lift r out = (r, out)"
  by (simp add: io_lift_def)

lemma println_apply [io_simps]: "println l out = (Ok (), out @ [l])"
  by (simp add: println_def)

lemma io_bind_lift [io_simps]:
  "io_bind (io_lift r) f out =
     (case r of Ok x \<Rightarrow> f x out | Err e \<Rightarrow> (Err e, out) | Panicked e \<Rightarrow> (Panicked e, out))"
  by (cases r) (simp_all add: io_bind_def io_lift_def)

lemma io_bind_println [io_simps]:
  "io_bind (println l) f out = f () (out @ [l])"
  by (simp add: io_bind_def println_def)

lemma io_bind_return [io_simps]:
  "io_bind (io_return x) f out = f x out"
  by (simp add: io_bind_def io_return_def)

lemma io_unwrap_apply [io_simps]:
  "io_unwrap m out = (unwrap (fst (m out)), snd (m out))"
  by (simp add: io_unwrap_def split: prod.split)

lemma io_bind_apply [io_simps]:
  "io_bind m f out =
     (case fst (m out) of
        Ok x \<Rightarrow> f x (snd (m out))
      | Err e \<Rightarrow> (Err e, snd (m out))
      | Panicked e \<Rightarrow> (Panicked e, snd (m out)))"
  by (simp add: io_bind_def split: prod.split outcome.split)

lemma appends_return [intro]: "appends (io_return x)"
  by (simp add: appends_def io_return_def)

lemma appends_lift [intro]: "appends (io_lift r)"
  by (simp add: appends_def io_lift_def)

lemma appends_println [intro]: "appends (println l)"
  by (simp add: appends_def println_def)

lemma appends_unwrap [intro]: "appends m \<Longrightarrow> appends (io_unwrap m)"
  by (simp add: appends_def io_unwrap_apply)

lemma appends_bind [intro]:
  assumes m: "appends m" and f: "\<And>x. appends (f x)"
  shows "appends (io_bind m f)"
  unfolding appends_def
proof
  fix out
  obtain new where new: "snd (m out) = out @ new"
    using m by (auto simp: appends_def)
  show "\<exists>new. snd (io_bind m f out) = out @ new"
  proof (cases "fst (m out)")
    case (Ok x)
    obtain new' where "snd (f x (snd (m out))) = snd (m out) @ new'"
      using f by (auto simp: appends_def)
    with Ok new show ?thesis by (simp add: io_bind_apply)
  qed (use new in \<open>simp_all add: io_bind_apply\<close>)
qed

subsection \<open>Checked arithmetic\<close>

lemma unat_less_len: "unat (w :: 'a::len word) < 2 ^ LENGTH('a)"
  by (rule unsigned_less)

lemma checked_mul_Some_iff:
  "checked_mul a b = Some c \<longleftrightarrow> unat a * unat b < 2 ^ LENGTH('a) \<and> unat c = unat a * unat b"
  for a b c :: "'a::len word"
proof
  assume "checked_mul a b = Some c"
  then show "unat a * unat b < 2 ^ LENGTH('a) \<and> unat c = unat a * unat b"
    by (auto simp: checked_mul_def unat_mult_lem [THEN iffD1] split: if_splits)
next
  assume "unat a * unat b < 2 ^ LENGTH('a) \<and> unat c = unat a * unat b"
  then show "checked_mul a b = Some c"
    by (auto simp: checked_mul_def unat_mult_lem [THEN iffD1] word_unat_eq_iff)
qed

lemma checked_add_Some_iff:
  "checked_add a b = Some c \<longleftrightarrow> unat a + unat b < 2 ^ LENGTH('a) \<and> unat c = unat a + unat b"
  for a b c :: "'a::len word"
proof
  assume "checked_add a b = Some c"
  then show "unat a + unat b < 2 ^ LENGTH('a) \<and> unat c = unat a + unat b"
    by (auto simp: checked_add_def unat_add_lem [THEN iffD1] split: if_splits)
next
  assume "unat a + unat b < 2 ^ LENGTH('a) \<and> unat c = unat a + unat b"
  then show "checked_add a b = Some c"
    by (auto simp: checked_add_def unat_add_lem [THEN iffD1] word_unat_eq_iff)
qed

lemma checked_mul_None_iff: "checked_mul a b = None \<longleftrightarrow> 2 ^ LENGTH('a) \<le> unat a * unat b"
  for a b :: "'a::len word"
  by (simp add: checked_mul_def not_less)

lemma checked_add_None_iff: "checked_add a b = None \<longleftrightarrow> 2 ^ LENGTH('a) \<le> unat a + unat b"
  for a b :: "'a::len word"
  by (simp add: checked_add_def not_less)

end
