(* ===== verification/Json_Lex.thy ===== *)
theory Json_Lex
  imports Prelude
begin

text \<open>
  The lexical layer of serde_json (the JSON library behind actix's \<open>web::Json\<close> extractor and
  responder, main.rs lines 13--21, 30 and 43), on the request body as bytes
  (\<open>serde_json::from_slice\<close>):
  \<^item> whitespace is space, tab, line feed and carriage return (\<open>parse_whitespace\<close>);
  \<^item> \<open>parse_ident\<close> checks the rest of \<open>null\<close>, \<open>true\<close>, \<open>false\<close>;
  \<^item> \<open>ignore_integer\<close> skips a number: an optional minus already eaten, one \<open>0\<close> or a
    non-zero digit and digits, an optional fraction with at least one digit, an optional
    exponent with an optional sign and at least one digit;
  \<^item> \<open>ignore_str\<close> skips a string whose opening quote is eaten, checking escapes but not
    UTF-8 (\<open>SliceRead::ignore_str\<close>); \<open>parse_str_acc\<close> reads one into a \<open>String\<close>:
    it decodes the escapes (a \<open>\u\<close> escape of a UTF-16 surrogate must be a high surrogate
    followed by an escaped low one) and checks at the closing quote that the result is
    UTF-8 (\<open>str::from_utf8\<close>, \<open>utf8_valid\<close>). Control characters below 0x20 are errors.
  \<^item> \<open>json_escape\<close> is the writer's \<open>format_escaped_str_contents\<close>: quote, backslash and
    the control characters are escaped, the named ones by letter, the others as
    \<open>\u00xx\<close> in lower-case hex; every other byte is copied.
  Error codes follow serde_json's \<open>ErrorCode\<close>, with the end-of-input codes merged into
  \<open>EofWhileParsing\<close>, the surrogate errors (\<open>LoneLeadingSurrogateInHexEscape\<close>,
  \<open>UnexpectedEndOfHexEscape\<close>) into \<open>LoneSurrogate\<close>, and the two comma-or-end codes
  into \<open>ExpectedCommaOrEnd\<close>.
  The lemmas show that every successful skip or read returns a shorter rest (what the
  termination proofs of the loops built on them need) and that the reader undoes the
  writer's escaping: \<open>parse_str\<close> reads \<open>json_escape s\<close> back as \<open>s\<close> when \<open>s\<close> is UTF-8.
\<close>

type_synonym bytes = "byte list"

datatype json_error =
    EofWhileParsing | ExpectedSomeValue | ExpectedSomeIdent | ExpectedColon
  | ExpectedCommaOrEnd | TrailingComma | TrailingCharacters | KeyMustBeAString
  | InvalidEscape | InvalidNumber | ControlCharacter | LoneSurrogate | InvalidUnicode
  | InvalidType | InvalidLength | MissingField | DuplicateField

definition is_ws :: "byte \<Rightarrow> bool" where
  "is_ws b \<longleftrightarrow> b = 32 \<or> b = 10 \<or> b = 9 \<or> b = 13"

definition skip_ws :: "bytes \<Rightarrow> bytes" where
  "skip_ws bs = dropWhile is_ws bs"

definition is_dig :: "byte \<Rightarrow> bool" where
  "is_dig b \<longleftrightarrow> 48 \<le> b \<and> b \<le> 57"

fun parse_ident :: "bytes \<Rightarrow> bytes \<Rightarrow> json_error + bytes" where
  "parse_ident [] bs = Inr bs"
| "parse_ident (e # es) [] = Inl EofWhileParsing"
| "parse_ident (e # es) (b # bs) = (if b = e then parse_ident es bs else Inl ExpectedSomeIdent)"

subsection \<open>Numbers\<close>

definition ignore_exponent :: "bytes \<Rightarrow> json_error + bytes" where
  "ignore_exponent bs =
     (let bs' = (case bs of c # r \<Rightarrow> if c = 43 \<or> c = 45 then r else bs | [] \<Rightarrow> []) in
      case bs' of
        c # r \<Rightarrow> if is_dig c then Inr (dropWhile is_dig r) else Inl InvalidNumber
      | [] \<Rightarrow> Inl InvalidNumber)"

definition ignore_exp_part :: "bytes \<Rightarrow> json_error + bytes" where
  "ignore_exp_part bs =
     (case bs of c # r \<Rightarrow> if c = 101 \<or> c = 69 then ignore_exponent r else Inr bs | [] \<Rightarrow> Inr [])"

definition ignore_frac_exp :: "bytes \<Rightarrow> json_error + bytes" where
  "ignore_frac_exp bs =
     (case bs of
        c # r \<Rightarrow>
          if c = 46 then
            (case r of
               d # r' \<Rightarrow> if is_dig d then ignore_exp_part (dropWhile is_dig r') else Inl InvalidNumber
             | [] \<Rightarrow> Inl InvalidNumber)
          else ignore_exp_part bs
      | [] \<Rightarrow> Inr [])"

definition ignore_integer :: "bytes \<Rightarrow> json_error + bytes" where
  "ignore_integer bs =
     (case bs of
        c # r \<Rightarrow>
          if c = 48 then
            (case r of d # _ \<Rightarrow> if is_dig d then Inl InvalidNumber else ignore_frac_exp r
             | [] \<Rightarrow> Inr [])
          else if is_dig c then ignore_frac_exp (dropWhile is_dig r)
          else Inl InvalidNumber
      | [] \<Rightarrow> Inl InvalidNumber)"

subsection \<open>Strings\<close>

definition hex_val :: "byte \<Rightarrow> nat option" where
  "hex_val b =
     (if 48 \<le> b \<and> b \<le> 57 then Some (unat b - 48)
      else if 97 \<le> b \<and> b \<le> 102 then Some (unat b - 87)
      else if 65 \<le> b \<and> b \<le> 70 then Some (unat b - 55)
      else None)"

definition hex4 :: "bytes \<Rightarrow> json_error + nat" where
  "hex4 bs =
     (if length bs < 4 then Inl EofWhileParsing
      else (case (hex_val (bs ! 0), hex_val (bs ! 1), hex_val (bs ! 2), hex_val (bs ! 3)) of
              (Some a, Some b, Some c, Some d) \<Rightarrow> Inr (((a * 16 + b) * 16 + c) * 16 + d)
            | _ \<Rightarrow> Inl InvalidEscape))"

definition is_simple_escape :: "byte \<Rightarrow> bool" where
  "is_simple_escape c \<longleftrightarrow> c \<in> set [34, 92, 47, 98, 102, 110, 114, 116]"

definition unescape_simple :: "byte \<Rightarrow> byte" where
  "unescape_simple c =
     (if c = 98 then 8 else if c = 102 then 12 else if c = 110 then 10
      else if c = 114 then 13 else if c = 116 then 9 else c)"

function ignore_str :: "bytes \<Rightarrow> json_error + bytes" where
  "ignore_str [] = Inl EofWhileParsing"
| "ignore_str (b # bs) =
     (if b = 34 then Inr bs
      else if b = 92 then
        (case bs of
           [] \<Rightarrow> Inl EofWhileParsing
         | c # rest \<Rightarrow>
             if is_simple_escape c then ignore_str rest
             else if c = 117 then (case hex4 rest of Inl e \<Rightarrow> Inl e | Inr _ \<Rightarrow> ignore_str (drop 4 rest))
             else Inl InvalidEscape)
      else if b < 32 then Inl ControlCharacter
      else ignore_str bs)"
  by pat_completeness auto
termination by (relation "measure length") auto

definition utf8_encode :: "nat \<Rightarrow> bytes" where
  "utf8_encode c =
     (if c < 128 then [of_nat c]
      else if c < 2048 then [of_nat (192 + c div 64), of_nat (128 + c mod 64)]
      else if c < 65536 then
        [of_nat (224 + c div 4096), of_nat (128 + (c div 64) mod 64), of_nat (128 + c mod 64)]
      else [of_nat (240 + c div 262144), of_nat (128 + (c div 4096) mod 64),
            of_nat (128 + (c div 64) mod 64), of_nat (128 + c mod 64)])"

definition is_cont :: "byte \<Rightarrow> bool" where
  "is_cont b \<longleftrightarrow> 128 \<le> b \<and> b \<le> 191"

function utf8_valid :: "bytes \<Rightarrow> bool" where
  "utf8_valid [] = True"
| "utf8_valid (a # rest) =
     (if a < 128 then utf8_valid rest
      else if 194 \<le> a \<and> a \<le> 223 then
        (case rest of b # r \<Rightarrow> is_cont b \<and> utf8_valid r | [] \<Rightarrow> False)
      else if 224 \<le> a \<and> a \<le> 239 then
        (case rest of
           b # c # r \<Rightarrow>
             (if a = 224 then 160 \<le> b \<and> b \<le> 191 else if a = 237 then 128 \<le> b \<and> b \<le> 159
              else is_cont b) \<and> is_cont c \<and> utf8_valid r
         | _ \<Rightarrow> False)
      else if 240 \<le> a \<and> a \<le> 244 then
        (case rest of
           b # c # d # r \<Rightarrow>
             (if a = 240 then 144 \<le> b \<and> b \<le> 191 else if a = 244 then 128 \<le> b \<and> b \<le> 143
              else is_cont b) \<and> is_cont c \<and> is_cont d \<and> utf8_valid r
         | _ \<Rightarrow> False)
      else False)"
  by pat_completeness auto
termination by (relation "measure length") auto

definition parse_escape :: "bytes \<Rightarrow> json_error + (bytes \<times> nat)" where
  "parse_escape bs =
     (case bs of
        [] \<Rightarrow> Inl EofWhileParsing
      | c # rest \<Rightarrow>
          if is_simple_escape c then Inr ([unescape_simple c], 1)
          else if c = 117 then
            (case hex4 rest of
               Inl e \<Rightarrow> Inl e
             | Inr n \<Rightarrow>
                 if 56320 \<le> n \<and> n \<le> 57343 then Inl LoneSurrogate
                 else if 55296 \<le> n \<and> n \<le> 56319 then
                   (case drop 4 rest of
                      b1 # b2 # rest2 \<Rightarrow>
                        if b1 = 92 \<and> b2 = 117 then
                          (case hex4 rest2 of
                             Inl e \<Rightarrow> Inl e
                           | Inr n2 \<Rightarrow>
                               if 56320 \<le> n2 \<and> n2 \<le> 57343
                               then Inr (utf8_encode ((n - 55296) * 1024 + (n2 - 56320) + 65536), 11)
                               else Inl LoneSurrogate)
                        else Inl LoneSurrogate
                    | [b1] \<Rightarrow> if b1 = 92 then Inl EofWhileParsing else Inl LoneSurrogate
                    | [] \<Rightarrow> Inl EofWhileParsing)
                 else Inr (utf8_encode n, 5))
          else Inl InvalidEscape)"

function parse_str_acc :: "bytes \<Rightarrow> bytes \<Rightarrow> json_error + (bytes \<times> bytes)" where
  "parse_str_acc acc [] = Inl EofWhileParsing"
| "parse_str_acc acc (b # bs) =
     (if b = 34 then (if utf8_valid acc then Inr (acc, bs) else Inl InvalidUnicode)
      else if b = 92 then
        (case parse_escape bs of Inl e \<Rightarrow> Inl e | Inr (out, n) \<Rightarrow> parse_str_acc (acc @ out) (drop n bs))
      else if b < 32 then Inl ControlCharacter
      else parse_str_acc (acc @ [b]) bs)"
  by pat_completeness auto
termination
  by (relation "measure (\<lambda>(acc, bs). length bs)")
    (auto simp: parse_escape_def split: list.splits if_splits sum.splits)

definition parse_str :: "bytes \<Rightarrow> json_error + (bytes \<times> bytes)" where
  "parse_str bs = parse_str_acc [] bs"

text \<open>
  The scalar arms of \<open>Deserializer::ignore_value\<close>: the first byte \<open>c\<close> of the value is
  already peeked; \<open>n\<close>, \<open>t\<close>, \<open>f\<close>, \<open>-\<close> and \<open>"\<close> are eaten, a digit is not.
\<close>

definition ignore_scalar :: "byte \<Rightarrow> bytes \<Rightarrow> json_error + bytes" where
  "ignore_scalar c rest =
     (if c = 110 then parse_ident [117, 108, 108] rest
      else if c = 116 then parse_ident [114, 117, 101] rest
      else if c = 102 then parse_ident [97, 108, 115, 101] rest
      else if c = 45 then ignore_integer rest
      else if is_dig c then ignore_integer (c # rest)
      else if c = 34 then ignore_str rest
      else Inl ExpectedSomeValue)"

subsection \<open>Writing strings\<close>

definition hex_digit :: "nat \<Rightarrow> byte" where
  "hex_digit n = (if n < 10 then of_nat (48 + n) else of_nat (87 + n))"

definition escape_out :: "byte \<Rightarrow> bytes" where
  "escape_out b =
     (if b = 34 then [92, 34] else if b = 92 then [92, 92]
      else if b = 8 then [92, 98] else if b = 12 then [92, 102] else if b = 10 then [92, 110]
      else if b = 13 then [92, 114] else if b = 9 then [92, 116]
      else if b < 32 then [92, 117, 48, 48, hex_digit (unat b div 16), hex_digit (unat b mod 16)]
      else [b])"

definition json_escape :: "bytes \<Rightarrow> bytes" where
  "json_escape s = concat (map escape_out s)"

definition json_string :: "bytes \<Rightarrow> bytes" where
  "json_string s = 34 # json_escape s @ [34]"

subsection \<open>Every successful skip consumes input\<close>

lemma skip_ws_length: "length (skip_ws bs) \<le> length bs"
  by (simp add: skip_ws_def length_dropWhile_le)

lemma skip_ws_Nil [simp]: "skip_ws [] = []"
  by (simp add: skip_ws_def)

lemma skip_ws_Cons_le: "skip_ws bs = c # r \<Longrightarrow> Suc (length r) \<le> length bs"
  using skip_ws_length [of bs] by simp

lemma ignore_str_shorter: "ignore_str bs = Inr r \<Longrightarrow> length r < length bs"
proof (induction bs rule: ignore_str.induct)
  case (2 b bs)
  show ?case
  proof (cases "b = 92 \<and> bs \<noteq> []")
    case True
    then obtain c rest where bs: "bs = c # rest" and b: "b = 92" by (cases bs) auto
    have "length rest - 4 < Suc (Suc (length rest))" by simp
    then show ?thesis using 2 bs b by (fastforce split: if_splits sum.splits)
  qed (use 2 in \<open>auto split: if_splits list.splits\<close>)
qed simp

lemma ignore_exponent_shorter: "ignore_exponent bs = Inr r \<Longrightarrow> length r < length bs"
  by (auto simp: ignore_exponent_def Let_def split: list.splits if_splits)
    (metis length_dropWhile_le le_imp_less_Suc less_SucI)+

lemma ignore_exp_part_le: "ignore_exp_part bs = Inr r \<Longrightarrow> length r \<le> length bs"
  by (auto simp: ignore_exp_part_def split: list.splits if_splits dest!: ignore_exponent_shorter)

lemma ignore_frac_exp_le: "ignore_frac_exp bs = Inr r \<Longrightarrow> length r \<le> length bs"
  by (auto simp: ignore_frac_exp_def split: list.splits if_splits dest!: ignore_exp_part_le)
    (meson length_dropWhile_le le_SucI order_trans)

lemma ignore_integer_shorter: "ignore_integer bs = Inr r \<Longrightarrow> length r < length bs"
  by (auto simp: ignore_integer_def split: list.splits if_splits dest!: ignore_frac_exp_le)
    (metis length_dropWhile_le le_imp_less_Suc order_trans less_SucI)+

lemma parse_str_acc_shorter: "parse_str_acc acc bs = Inr (v, r) \<Longrightarrow> length r < length bs"
proof (induction acc bs rule: parse_str_acc.induct)
  case (2 acc b bs)
  show ?case
  proof (cases "b = 92")
    case True
    then obtain out n where e: "parse_escape bs = Inr (out, n)"
      using 2(3) by (auto split: sum.splits)
    then show ?thesis using 2 True by fastforce
  qed (use 2 in \<open>auto split: if_splits\<close>)
qed simp

lemma parse_ident_le: "parse_ident es bs = Inr r \<Longrightarrow> length r \<le> length bs"
  by (induction es bs rule: parse_ident.induct) (auto split: if_splits)

lemma ignore_scalar_le: "ignore_scalar c rest = Inr r \<Longrightarrow> length r \<le> length rest"
  using ignore_integer_shorter [of rest r] ignore_integer_shorter [of "c # rest" r]
    ignore_str_shorter [of rest r] parse_ident_le [of _ rest r]
  by (auto simp: ignore_scalar_def split: if_splits)

subsection \<open>Escaping is undone by the reader\<close>

lemma hex_val_hex_digit: "k < 16 \<Longrightarrow> hex_val (hex_digit k) = Some k"
proof -
  assume "k < 16"
  then have "k \<in> set [0..<16]" by simp
  moreover have "\<forall>k \<in> set [0..<16]. hex_val (hex_digit k) = Some k"
    by (simp add: hex_val_def hex_digit_def upt_conv_Cons)
  ultimately show ?thesis by blast
qed

lemma utf8_encode_ascii: "unat b < 128 \<Longrightarrow> utf8_encode (unat b) = [b]"
  by (simp add: utf8_encode_def)

lemma hex4_ctrl:
  assumes "(b::byte) < 32"
  shows "hex4 (48 # 48 # hex_digit (unat b div 16) # hex_digit (unat b mod 16) # rest) = Inr (unat b)"
proof -
  have "unat b < 32" using assms by (simp add: word_less_nat_alt)
  then have "unat b div 16 < 16" "unat b mod 16 < 16" by simp_all
  moreover have "hex_val 48 = Some 0" by (simp add: hex_val_def)
  ultimately show ?thesis by (simp add: hex4_def hex_val_hex_digit)
qed

lemma parse_str_acc_escape_out:
  "parse_str_acc acc (escape_out b @ rest) = parse_str_acc (acc @ [b]) rest"
proof -
  consider "b = 34" | "b = 92" | "b = 8" | "b = 12" | "b = 10" | "b = 13" | "b = 9"
    | "b < 32" "b \<notin> {8, 9, 10, 12, 13}" | "\<not> b < 32" "b \<noteq> 34" "b \<noteq> 92" by fastforce
  then show ?thesis
  proof cases
    case 8
    have u: "unat b < 32" using 8(1) by (simp add: word_less_nat_alt)
    have ns: "\<not> (55296 \<le> unat b)" using u by simp
    show ?thesis using 8 u ns
      by (simp add: escape_out_def parse_escape_def is_simple_escape_def hex4_ctrl utf8_encode_ascii
        unescape_simple_def)
  qed (simp_all add: escape_out_def parse_escape_def is_simple_escape_def unescape_simple_def)
qed

lemma parse_str_acc_json_escape:
  "parse_str_acc acc (json_escape s @ 34 # rest) =
     (if utf8_valid (acc @ s) then Inr (acc @ s, rest) else Inl InvalidUnicode)"
  by (induction s arbitrary: acc) (simp_all add: json_escape_def parse_str_acc_escape_out)

lemma ignore_str_escape_out: "ignore_str (escape_out b @ rest) = ignore_str rest"
proof (cases "b < 32 \<and> b \<notin> {8, 9, 10, 12, 13}")
  case True
  have u: "unat b < 32" using True by (simp add: word_less_nat_alt)
  show ?thesis using True u by (simp add: escape_out_def is_simple_escape_def hex4_ctrl)
qed (auto simp: escape_out_def is_simple_escape_def)

lemma ignore_str_json_escape: "ignore_str (json_escape s @ 34 # rest) = Inr rest"
  by (induction s) (simp_all add: json_escape_def ignore_str_escape_out)

end
