(* ===== verification/Json_Value.thy ===== *)
theory Json_Value
  imports Json_Lex
begin

text \<open>
  serde_json's \<open>Deserializer::ignore_value\<close>, the loop that skips a JSON value of any
  shape (used by the derived \<open>Deserialize\<close> of \<open>Prompt\<close> for every field that is not
  \<open>text\<close>), and the pieces of the deserializer the derived code calls: \<open>next_key\<close>
  (\<open>MapAccess::next_key_seed\<close>), \<open>parse_object_colon\<close>, \<open>deserialize_string\<close>,
  \<open>end_map\<close>, \<open>end_seq\<close>, \<open>peek_invalid_type\<close>.

  \<open>ignore_value\<close> is not recursive in the source: it keeps the open brackets in a
  \<open>scratch\<close> stack (here a list with its top first) and the innermost one in
  \<open>enclosing\<close>, so nesting depth is not bounded by the recursion limit. The model is
  the same loop, its two halves and the key check being three mutually recursive
  functions: \<open>ignore_loop\<close> is one turn of the outer \<open>loop\<close> (read a value or an opening
  bracket), \<open>close_loop\<close> the inner \<open>loop\<close> (after a value: a comma, or closing brackets
  that pop the stack), \<open>key_then_loop\<close> the \<open>if frame == b'{'\<close> key check before the next
  turn. Every turn consumes input except the step from \<open>close_loop\<close> to
  \<open>key_then_loop\<close> to \<open>ignore_loop\<close>, which the measure (three times the remaining
  length, plus 2, 1, 0) accounts for.
  The lemmas show that the loop is total and consumes input, that the entry points
  consume input (for the termination of the derived \<open>visit_map\<close> in theory Wire), and
  that reading what the writer printed skips exactly that document
  (\<open>ignore_loop_print_json\<close>, by induction on the document with the loop's state
  generalised) or reads back the string it holds (\<open>deserialize_string_print_json\<close>).
\<close>

function (sequential, domintros)
  ignore_loop :: "bytes \<Rightarrow> byte option \<Rightarrow> byte list \<Rightarrow> json_error + bytes"
and close_loop :: "bytes \<Rightarrow> bool \<Rightarrow> byte \<Rightarrow> byte list \<Rightarrow> json_error + bytes"
and key_then_loop :: "bytes \<Rightarrow> byte \<Rightarrow> byte list \<Rightarrow> json_error + bytes"
where
  "ignore_loop bs enclosing scratch =
     (case skip_ws bs of
        [] \<Rightarrow> Inl EofWhileParsing
      | c # rest \<Rightarrow>
          if c = 91 \<or> c = 123 then
            close_loop rest False c (case enclosing of None \<Rightarrow> scratch | Some f \<Rightarrow> f # scratch)
          else
            (case ignore_scalar c rest of
               Inl e \<Rightarrow> Inl e
             | Inr bs' \<Rightarrow>
                 (case enclosing of
                    Some f \<Rightarrow> close_loop bs' True f scratch
                  | None \<Rightarrow> (case scratch of [] \<Rightarrow> Inr bs' | f # sc \<Rightarrow> close_loop bs' True f sc))))"
| "close_loop bs accept_comma frame scratch =
     (case skip_ws bs of
        [] \<Rightarrow> Inl EofWhileParsing
      | c # rest \<Rightarrow>
          if c = 44 \<and> accept_comma then key_then_loop rest frame scratch
          else if (c = 93 \<and> frame = 91) \<or> (c = 125 \<and> frame = 123) then
            (case scratch of [] \<Rightarrow> Inr rest | f # sc \<Rightarrow> close_loop rest True f sc)
          else if accept_comma then Inl ExpectedCommaOrEnd
          else key_then_loop (c # rest) frame scratch)"
| "key_then_loop bs frame scratch =
     (if frame = 123 then
        (case skip_ws bs of
           [] \<Rightarrow> Inl EofWhileParsing
         | c # rest \<Rightarrow>
             if c \<noteq> 34 then Inl KeyMustBeAString
             else
               (case ignore_str rest of
                  Inl e \<Rightarrow> Inl e
                | Inr r \<Rightarrow>
                    (case skip_ws r of
                       [] \<Rightarrow> Inl EofWhileParsing
                     | d # r' \<Rightarrow>
                         if d = 58 then ignore_loop r' (Some frame) scratch else Inl ExpectedColon)))
      else ignore_loop bs (Some frame) scratch)"
  by pat_completeness auto
termination
proof (relation "measure (\<lambda>x. case x of
                   Inl (bs, _, _) \<Rightarrow> 3 * length bs
                 | Inr (Inl (bs, _, _, _)) \<Rightarrow> 3 * length bs + 2
                 | Inr (Inr (bs, _, _)) \<Rightarrow> 3 * length bs + 1)")
  show "wf (measure (\<lambda>x. case x of
                   Inl (bs, _, _) \<Rightarrow> 3 * length bs
                 | Inr (Inl (bs, _, _, _)) \<Rightarrow> 3 * length bs + 2
                 | Inr (Inr (bs, _, _)) \<Rightarrow> 3 * length bs + 1))" by simp
qed (auto dest!: skip_ws_Cons_le ignore_scalar_le ignore_str_shorter)

definition ignore_value :: "bytes \<Rightarrow> json_error + bytes" where
  "ignore_value bs = ignore_loop bs None []"

text \<open>
  What \<open>ignore_value\<close> does once a value has been skipped: go on after it in the
  enclosing array or object (\<open>close_loop\<close> with a comma accepted), or stop when no
  bracket is open.
\<close>

definition value_done :: "bytes \<Rightarrow> byte option \<Rightarrow> byte list \<Rightarrow> json_error + bytes" where
  "value_done rest enclosing scratch =
     (case enclosing of
        Some f \<Rightarrow> close_loop rest True f scratch
      | None \<Rightarrow> (case scratch of [] \<Rightarrow> Inr rest | f # sc \<Rightarrow> close_loop rest True f sc))"

subsection \<open>The deserializer's entry points used by the derived code\<close>

text \<open>
  \<open>peek_invalid_type\<close> is the error of a value of the wrong type: the value is read
  first, so a malformed one reports its own error. Numbers are read by \<open>ignore_scalar\<close>;
  serde_json reads them with \<open>parse_any_number\<close>, which also reports
  \<open>NumberOutOfRange\<close> for a float beyond \<open>f64\<close>: that case is merged into
  \<open>InvalidType\<close> (both are errors).
\<close>

definition peek_invalid_type :: "bytes \<Rightarrow> json_error" where
  "peek_invalid_type bs =
     (case bs of
        [] \<Rightarrow> EofWhileParsing
      | c # rest \<Rightarrow>
          if c = 91 \<or> c = 123 then InvalidType
          else if c = 34 then (case parse_str rest of Inl e \<Rightarrow> e | Inr _ \<Rightarrow> InvalidType)
          else (case ignore_scalar c rest of Inl e \<Rightarrow> e | Inr _ \<Rightarrow> InvalidType))"

definition deserialize_string :: "bytes \<Rightarrow> json_error + (bytes \<times> bytes)" where
  "deserialize_string bs =
     (case skip_ws bs of
        [] \<Rightarrow> Inl EofWhileParsing
      | c # rest \<Rightarrow> if c = 34 then parse_str rest else Inl (peek_invalid_type (c # rest)))"

definition parse_object_colon :: "bytes \<Rightarrow> json_error + bytes" where
  "parse_object_colon bs =
     (case skip_ws bs of
        [] \<Rightarrow> Inl EofWhileParsing
      | c # rest \<Rightarrow> if c = 58 then Inr rest else Inl ExpectedColon)"

definition key_start :: "bytes \<Rightarrow> json_error + (bytes option \<times> bytes)" where
  "key_start peek =
     (case peek of
        [] \<Rightarrow> Inl EofWhileParsing
      | c # rest \<Rightarrow>
          if c = 34 then (case parse_str rest of Inl e \<Rightarrow> Inl e | Inr (k, r) \<Rightarrow> Inr (Some k, r))
          else if c = 125 then Inl TrailingComma
          else Inl KeyMustBeAString)"

definition next_key :: "bool \<Rightarrow> bytes \<Rightarrow> json_error + (bytes option \<times> bytes)" where
  "next_key first bs =
     (case skip_ws bs of
        [] \<Rightarrow> Inl EofWhileParsing
      | c # rest \<Rightarrow>
          if c = 125 then Inr (None, c # rest)
          else if c = 44 \<and> \<not> first then key_start (skip_ws rest)
          else if first then key_start (c # rest)
          else Inl ExpectedCommaOrEnd)"

definition next_element_first :: "bytes \<Rightarrow> json_error + (bytes option \<times> bytes)" where
  "next_element_first bs =
     (case skip_ws bs of
        [] \<Rightarrow> Inl EofWhileParsing
      | c # rest \<Rightarrow>
          if c = 93 then Inr (None, c # rest)
          else (case deserialize_string (c # rest) of Inl e \<Rightarrow> Inl e | Inr (s, r) \<Rightarrow> Inr (Some s, r)))"

definition end_map :: "bytes \<Rightarrow> json_error + bytes" where
  "end_map bs =
     (case skip_ws bs of
        [] \<Rightarrow> Inl EofWhileParsing
      | c # rest \<Rightarrow>
          if c = 125 then Inr rest else if c = 44 then Inl TrailingComma else Inl TrailingCharacters)"

definition end_seq :: "bytes \<Rightarrow> json_error + bytes" where
  "end_seq bs =
     (case skip_ws bs of
        [] \<Rightarrow> Inl EofWhileParsing
      | c # rest \<Rightarrow>
          if c = 93 then Inr rest
          else if c = 44 then
            (case skip_ws rest of d # _ \<Rightarrow> if d = 93 then Inl TrailingComma else Inl TrailingCharacters
             | [] \<Rightarrow> Inl TrailingCharacters)
          else Inl TrailingCharacters)"

subsection \<open>JSON documents and the compact writer\<close>

text \<open>
  \<open>json\<close> is the tree a \<open>Serialize\<close> implementation walks; \<open>print_json\<close> is what
  serde_json's \<open>Serializer\<close> with the \<open>CompactFormatter\<close> writes for it
  (\<open>begin_array_value\<close> and \<open>begin_object_key\<close> write a comma before every element but
  the first; strings and keys go through \<open>format_escaped_str\<close>). A number is kept as the
  token the formatter wrote for it.
\<close>

datatype json =
    JNull
  | JBool bool
  | JNum bytes
  | JStr bytes
  | JArr "json list"
  | JObj "(bytes \<times> json) list"

fun print_json :: "json \<Rightarrow> bytes" where
  "print_json JNull = [110, 117, 108, 108]"
| "print_json (JBool b) = (if b then [116, 114, 117, 101] else [102, 97, 108, 115, 101])"
| "print_json (JNum t) = t"
| "print_json (JStr s) = json_string s"
| "print_json (JArr []) = [91, 93]"
| "print_json (JArr (x # xs)) =
     91 # print_json x @ concat (map (\<lambda>y. 44 # print_json y) xs) @ [93]"
| "print_json (JObj []) = [123, 125]"
| "print_json (JObj (kv # kvs)) =
     123 # json_string (fst kv) @ 58 # print_json (snd kv)
       @ concat (map (\<lambda>kv'. 44 # json_string (fst kv') @ 58 # print_json (snd kv')) kvs) @ [125]"

text \<open>
  A number token is one the reader skips completely; a number must be followed by a byte
  that cannot continue it (\<open>num_delim\<close>), as every byte the writer puts after a value
  (comma, closing bracket) is.
\<close>

definition num_token :: "bytes \<Rightarrow> bool" where
  "num_token t =
     (case t of [] \<Rightarrow> False | c # r \<Rightarrow> (c = 45 \<or> is_dig c) \<and> ignore_scalar c r = Inr [])"

definition num_delim :: "bytes \<Rightarrow> bool" where
  "num_delim bs = (case bs of [] \<Rightarrow> True | c # _ \<Rightarrow> \<not> is_dig c \<and> c \<noteq> 46 \<and> c \<noteq> 101 \<and> c \<noteq> 69)"

fun json_ok :: "json \<Rightarrow> bool" where
  "json_ok (JNum t) = num_token t"
| "json_ok (JArr xs) = (\<forall>x \<in> set xs. json_ok x)"
| "json_ok (JObj kvs) = (\<forall>kv \<in> set kvs. json_ok (snd kv))"
| "json_ok _ = True"

subsection \<open>The loop consumes input\<close>

declare ignore_loop.simps [simp del] close_loop.simps [simp del] key_then_loop.simps [simp del]

lemma ignore_loop_shorter:
  "ignore_loop bs enclosing scratch = Inr r \<Longrightarrow> length r < length bs"
  "close_loop bs accept_comma frame scratch = Inr r \<Longrightarrow> length r < length bs"
  "key_then_loop bs frame scratch = Inr r \<Longrightarrow> length r < length bs"
proof (induction bs enclosing scratch and bs accept_comma frame scratch and bs frame scratch
         rule: ignore_loop_close_loop_key_then_loop.induct)
  case (1 bs enclosing scratch)
  show ?case
    using "1.prems" [unfolded ignore_loop.simps [of bs]] "1.IH"
    by (fastforce dest!: skip_ws_Cons_le ignore_scalar_le
        split: list.splits if_splits sum.splits option.splits)
next
  case (2 bs accept_comma frame scratch)
  show ?case
    using "2.prems" [unfolded close_loop.simps [of bs]] "2.IH"
    by (fastforce dest!: skip_ws_Cons_le split: if_splits list.splits)
next
  case (3 bs frame scratch)
  show ?case
    using "3.prems" [unfolded key_then_loop.simps [of bs]] "3.IH"
    by (fastforce dest!: skip_ws_Cons_le ignore_str_shorter split: if_splits list.splits sum.splits)
qed

lemma ignore_value_shorter: "ignore_value bs = Inr r \<Longrightarrow> length r < length bs"
  unfolding ignore_value_def by (rule ignore_loop_shorter(1))

lemma parse_str_shorter: "parse_str bs = Inr (v, r) \<Longrightarrow> length r < length bs"
  unfolding parse_str_def by (rule parse_str_acc_shorter)

lemma deserialize_string_shorter: "deserialize_string bs = Inr (v, r) \<Longrightarrow> length r < length bs"
  by (auto simp: deserialize_string_def split: list.splits if_splits
           dest!: skip_ws_Cons_le parse_str_shorter)

lemma parse_object_colon_shorter: "parse_object_colon bs = Inr r \<Longrightarrow> length r < length bs"
  by (auto simp: parse_object_colon_def split: list.splits if_splits dest!: skip_ws_Cons_le)

lemma key_start_shorter: "key_start bs = Inr (Some k, r) \<Longrightarrow> length r < length bs"
  by (auto simp: key_start_def split: list.splits if_splits sum.splits dest!: parse_str_shorter)

lemma next_key_shorter: "next_key first bs = Inr (Some k, r) \<Longrightarrow> length r < length bs"
proof -
  assume a: "next_key first bs = Inr (Some k, r)"
  then obtain c rest where ws: "skip_ws bs = c # rest" by (auto simp: next_key_def split: list.splits)
  have "Suc (length rest) \<le> length bs" using ws by (rule skip_ws_Cons_le)
  moreover have "length (skip_ws rest) \<le> length rest" by (rule skip_ws_length)
  ultimately show ?thesis using a ws
    by (auto simp: next_key_def split: if_splits dest!: key_start_shorter)
qed

subsection \<open>Reading back what the writer wrote\<close>
lemma num_delim_dropWhile_self: "num_delim rest \<Longrightarrow> dropWhile is_dig rest = rest"
  by (cases rest) (simp_all add: num_delim_def)

lemma num_delim_dropWhile:
  "num_delim rest \<Longrightarrow> dropWhile is_dig (r @ rest) = dropWhile is_dig r @ rest"
  by (simp add: dropWhile_append num_delim_dropWhile_self)

lemma ignore_exponent_append:
  "ignore_exponent r = Inr [] \<Longrightarrow> num_delim rest \<Longrightarrow> ignore_exponent (r @ rest) = Inr rest"
  by (auto simp: ignore_exponent_def Let_def num_delim_dropWhile num_delim_dropWhile_self
      split: list.splits if_splits)

lemma ignore_exp_part_append:
  "ignore_exp_part r = Inr [] \<Longrightarrow> num_delim rest \<Longrightarrow> ignore_exp_part (r @ rest) = Inr rest"
  by (auto simp: ignore_exp_part_def num_delim_def ignore_exponent_append split: list.splits if_splits)

lemma ignore_frac_exp_append:
  "ignore_frac_exp r = Inr [] \<Longrightarrow> num_delim rest \<Longrightarrow> ignore_frac_exp (r @ rest) = Inr rest"
proof (cases r)
  case Nil
  assume "num_delim rest"
  then show ?thesis using Nil
    by (auto simp: ignore_frac_exp_def ignore_exp_part_def num_delim_def split: list.splits)
next
  case (Cons c r')
  assume a: "ignore_frac_exp r = Inr []" "num_delim rest"
  show ?thesis
  proof (cases "c = 46")
    case True
    then obtain d r'' where r': "r' = d # r''" "is_dig d"
      and e: "ignore_exp_part (dropWhile is_dig r'') = Inr []"
      using a(1) Cons by (auto simp: ignore_frac_exp_def split: list.splits if_splits)
    have "ignore_exp_part (dropWhile is_dig r'' @ rest) = Inr rest"
      using e a(2) by (rule ignore_exp_part_append)
    then show ?thesis using Cons True r'
      by (simp add: ignore_frac_exp_def num_delim_dropWhile a(2))
  qed (use a Cons ignore_exp_part_append [of "c # r'" rest] in \<open>auto simp: ignore_frac_exp_def\<close>)
qed

lemma ignore_integer_append:
  assumes "ignore_integer r = Inr []" and "num_delim rest"
  shows "ignore_integer (r @ rest) = Inr rest"
proof (cases r)
  case Nil
  then show ?thesis using assms(1) by (simp add: ignore_integer_def)
next
  case (Cons c r')
  have fe: "ignore_frac_exp ([] @ rest) = Inr rest"
    using assms(2) by (intro ignore_frac_exp_append) (simp_all add: ignore_frac_exp_def)
  show ?thesis
  proof (cases "c = 48")
    case True
    show ?thesis
    proof (cases r')
      case Nil
      then show ?thesis using True Cons assms(2) fe
        by (auto simp: ignore_integer_def num_delim_def split: list.splits)
    next
      case (Cons d r'')
      then have "\<not> is_dig d" and "ignore_frac_exp r' = Inr []"
        using assms(1) \<open>r = c # r'\<close> True by (auto simp: ignore_integer_def split: if_splits)
      then show ?thesis using True Cons \<open>r = c # r'\<close> ignore_frac_exp_append [of r' rest] assms(2)
        by (simp add: ignore_integer_def)
    qed
  next
    case False
    then have "is_dig c" and "ignore_frac_exp (dropWhile is_dig r') = Inr []"
      using assms(1) Cons by (auto simp: ignore_integer_def split: if_splits)
    then show ?thesis using False Cons assms(2)
      by (simp add: ignore_integer_def num_delim_dropWhile ignore_frac_exp_append)
  qed
qed

lemma num_token_append:
  assumes "num_token t" and "num_delim rest"
  obtains c r where "t = c # r" and "c = 45 \<or> is_dig c" and "ignore_scalar c (r @ rest) = Inr rest"
proof -
  obtain c r where t: "t = c # r" and c: "c = 45 \<or> is_dig c" and sc: "ignore_scalar c r = Inr []"
    using assms(1) by (auto simp: num_token_def split: list.splits)
  have "ignore_scalar c (r @ rest) = Inr rest"
  proof (cases "c = 45")
    case True
    then show ?thesis using sc assms(2) by (simp add: ignore_scalar_def ignore_integer_append)
  next
    case False
    then have d: "is_dig c" and ne: "c \<noteq> 110" "c \<noteq> 116" "c \<noteq> 102"
      using c by (auto simp: is_dig_def)
    then show ?thesis using sc assms(2) False ignore_integer_append [of "c # r" rest]
      by (simp add: ignore_scalar_def)
  qed
  then show ?thesis using t c that by blast
qed

lemma skip_ws_nws [simp]: "\<not> is_ws c \<Longrightarrow> skip_ws (c # r) = c # r"
  by (simp add: skip_ws_def)

lemma is_dig_cases:
  "is_dig c \<Longrightarrow> \<not> is_ws c \<and> c \<noteq> 91 \<and> c \<noteq> 93 \<and> c \<noteq> 123 \<and> c \<noteq> 125 \<and> c \<noteq> 44
     \<and> c \<noteq> 34 \<and> c \<noteq> 45 \<and> c \<noteq> 110 \<and> c \<noteq> 116 \<and> c \<noteq> 102"
  by (auto simp: is_dig_def is_ws_def)

lemma print_json_head:
  assumes "json_ok j"
  obtains c r where "print_json j = c # r" and "\<not> is_ws c" and "c \<noteq> 93" and "c \<noteq> 125"
proof (cases j)
  case (JNum t)
  then obtain c r where "t = c # r" "c = 45 \<or> is_dig c"
    using assms by (auto simp: num_token_def split: list.splits)
  then show ?thesis using that JNum is_dig_cases [of c] by (auto simp: is_ws_def)
next
  case (JBool b)
  then show ?thesis using that by (cases b) (auto simp: is_ws_def)
next
  case (JArr xs)
  then show ?thesis using that by (cases xs) (auto simp: is_ws_def)
next
  case (JObj kvs)
  then show ?thesis using that by (cases kvs) (auto simp: is_ws_def json_string_def)
qed (use that in \<open>auto simp: is_ws_def json_string_def\<close>)

lemma num_delim_sep: "num_delim tail \<Longrightarrow> num_delim (concat (map (\<lambda>x. 44 # m x) xs) @ tail)"
  by (cases xs) (simp_all add: num_delim_def is_dig_def)

lemma num_delim_close: "num_delim (93 # rest)" "num_delim (125 # rest)"
  by (simp_all add: num_delim_def is_dig_def)

lemma close_loop_elems:
  assumes "\<And>x more. x \<in> set xs \<Longrightarrow> num_delim more \<Longrightarrow>
             key_then_loop (m x @ more) f sc = close_loop more True f sc"
    and "num_delim tail"
  shows "close_loop (concat (map (\<lambda>x. 44 # m x) xs) @ tail) True f sc = close_loop tail True f sc"
  using assms
proof (induction xs)
  case (Cons x xs)
  let ?more = "concat (map (\<lambda>x. 44 # m x) xs) @ tail"
  have nd: "num_delim ?more" using Cons.prems(2) by (rule num_delim_sep)
  have "close_loop (concat (map (\<lambda>x. 44 # m x) (x # xs)) @ tail) True f sc
        = key_then_loop (m x @ ?more) f sc"
    by (subst close_loop.simps) (simp add: is_ws_def)
  also have "\<dots> = close_loop ?more True f sc" using Cons.prems(1) [of x ?more] nd by simp
  also have "\<dots> = close_loop tail True f sc" using Cons by simp
  finally show ?case .
qed simp

lemma key_then_loop_member:
  assumes "ignore_loop (print_json v @ more) (Some 123) sc = close_loop more True 123 sc"
  shows "key_then_loop (json_string k @ 58 # print_json v @ more) 123 sc = close_loop more True 123 sc"
  using assms
  by (subst key_then_loop.simps) (simp add: json_string_def ignore_str_json_escape is_ws_def)

lemma close_after_open:
  "close_loop (93 # rest) a 91 (case enclosing of None \<Rightarrow> scratch | Some f \<Rightarrow> f # scratch)
     = value_done rest enclosing scratch"
  "close_loop (125 # rest) a 123 (case enclosing of None \<Rightarrow> scratch | Some f \<Rightarrow> f # scratch)
     = value_done rest enclosing scratch"
  by (subst close_loop.simps, simp add: is_ws_def value_done_def split: option.split)+

text \<open>
  An array or an object, as the writer prints it: an opening bracket, the first member, the
  others each after a comma, the closing bracket. If the loop reads every member back to
  its following separator, it reads the whole bracketed value.
\<close>

lemma ignore_loop_members:
  assumes mem: "\<And>y more. y \<in> set (x # xs) \<Longrightarrow> num_delim more \<Longrightarrow>
                   key_then_loop (m y @ more) f P = close_loop more True f P"
    and hd: "m x = c # r" "\<not> is_ws c" "c \<noteq> 93" "c \<noteq> 125"
    and fc: "(f, cl) = (91, 93) \<or> (f, cl) = (123, 125)"
    and P: "P = (case enclosing of None \<Rightarrow> scratch | Some g \<Rightarrow> g # scratch)"
  shows "ignore_loop (f # m x @ concat (map (\<lambda>y. 44 # m y) xs) @ cl # rest) enclosing scratch
           = value_done rest enclosing scratch"
proof -
  let ?M = "concat (map (\<lambda>y. 44 # m y) xs) @ cl # rest"
  have nd: "num_delim (cl # rest)" using fc by (auto simp: num_delim_close)
  have "ignore_loop (f # m x @ ?M) enclosing scratch = close_loop (m x @ ?M) False f P"
    using fc P by (subst ignore_loop.simps) (auto simp: is_ws_def)
  also have "\<dots> = key_then_loop (m x @ ?M) f P"
    using hd by (subst close_loop.simps) simp
  also have "\<dots> = close_loop ?M True f P"
    by (intro mem num_delim_sep nd) simp
  also have "\<dots> = close_loop (cl # rest) True f P"
    by (intro close_loop_elems mem nd) simp_all
  also have "\<dots> = value_done rest enclosing scratch"
    using fc P close_after_open by auto
  finally show ?thesis .
qed

lemma ignore_loop_print_json:
  "json_ok j \<Longrightarrow> num_delim rest \<Longrightarrow>
   ignore_loop (print_json j @ rest) enclosing scratch = value_done rest enclosing scratch"
proof (induction j arbitrary: rest enclosing scratch)
  case JNull
  show ?case by (subst ignore_loop.simps) (simp add: is_ws_def ignore_scalar_def value_done_def)
next
  case (JBool b)
  show ?case by (subst ignore_loop.simps) (cases b, simp_all add: is_ws_def ignore_scalar_def value_done_def)
next
  case (JNum t)
  then obtain c r where t: "t = c # r" and c: "c = 45 \<or> is_dig c"
    and sc: "ignore_scalar c (r @ rest) = Inr rest"
    by (auto elim: num_token_append)
  have "\<not> is_ws c" "c \<noteq> 91" "c \<noteq> 123" using c is_dig_cases [of c] by (auto simp: is_ws_def)
  then show ?case using t sc by (subst ignore_loop.simps) (simp add: value_done_def)
next
  case (JStr s)
  show ?case
    by (subst ignore_loop.simps)
      (simp add: is_ws_def json_string_def ignore_scalar_def is_dig_def ignore_str_json_escape value_done_def)
next
  case (JArr xs)
  let ?P = "case enclosing of None \<Rightarrow> scratch | Some f \<Rightarrow> f # scratch"
  show ?case
  proof (cases xs)
    case Nil
    then show ?thesis by (subst ignore_loop.simps) (simp add: is_ws_def close_after_open)
  next
    case (Cons x xs')
    have ok: "json_ok y" if "y \<in> set xs" for y using JArr.prems(1) that by simp
    have elem: "key_then_loop (print_json y @ more) 91 ?P = close_loop more True 91 ?P"
      if "y \<in> set xs" "num_delim more" for y more
      using JArr.IH [OF that(1) ok [OF that(1)] that(2)]
      by (subst key_then_loop.simps) (simp add: value_done_def)
    obtain c r where "print_json x = c # r" "\<not> is_ws c" "c \<noteq> 93" "c \<noteq> 125"
      using ok [of x] Cons by (auto elim: print_json_head)
    then show ?thesis
      using ignore_loop_members [where x = x and xs = xs' and m = print_json and f = 91 and cl = 93
          and P = ?P and enclosing = enclosing and scratch = scratch and rest = rest] elem Cons
      by simp
  qed
next
  case (JObj kvs)
  let ?P = "case enclosing of None \<Rightarrow> scratch | Some f \<Rightarrow> f # scratch"
  let ?m = "\<lambda>kv. json_string (fst kv) @ 58 # print_json (snd kv)"
  have member: "key_then_loop (?m kv @ more) 123 ?P = close_loop more True 123 ?P"
    if "kv \<in> set kvs" "num_delim more" for kv more
  proof -
    have "snd kv \<in> Basic_BNFs.snds kv" by (cases kv) simp
    moreover have "json_ok (snd kv)" using JObj.prems(1) that(1) by simp
    ultimately show ?thesis
      using JObj.IH [OF that(1), of "snd kv" "more" "Some 123" ?P] that(2)
        key_then_loop_member [of "snd kv" more ?P "fst kv"]
      by (simp add: value_done_def)
  qed
  show ?case
  proof (cases kvs)
    case Nil
    then show ?thesis by (subst ignore_loop.simps) (simp add: is_ws_def close_after_open)
  next
    case (Cons kv kvs')
    have "?m kv = 34 # (json_escape (fst kv) @ 34 # 58 # print_json (snd kv))"
      by (simp add: json_string_def)
    then show ?thesis
      using ignore_loop_members [where x = kv and xs = kvs' and m = ?m and f = 123 and cl = 125
          and P = ?P and c = 34 and enclosing = enclosing and scratch = scratch and rest = rest] member Cons
      by (simp add: is_ws_def)
  qed
qed

lemma deserialize_string_print_json:
  assumes "json_ok v" and "num_delim X"
  shows "deserialize_string (print_json v @ X) =
           (case v of
              JStr s \<Rightarrow> if utf8_valid s then Inr (s, X) else Inl InvalidUnicode
            | _ \<Rightarrow> Inl InvalidType)"
proof (cases v)
  case (JNum t)
  then obtain c r where t: "t = c # r" and c: "c = 45 \<or> is_dig c"
    and sc: "ignore_scalar c (r @ X) = Inr X"
    using assms by (auto elim: num_token_append)
  have "\<not> is_ws c" "c \<noteq> 91" "c \<noteq> 123" "c \<noteq> 34" using c is_dig_cases [of c] by (auto simp: is_ws_def)
  then show ?thesis using JNum t sc by (simp add: deserialize_string_def peek_invalid_type_def)
next
  case (JStr s)
  then show ?thesis
    by (simp add: deserialize_string_def json_string_def is_ws_def parse_str_def parse_str_acc_json_escape)
next
  case (JBool b)
  then show ?thesis
    by (cases b) (simp_all add: deserialize_string_def peek_invalid_type_def is_ws_def ignore_scalar_def)
next
  case (JArr xs)
  then show ?thesis by (cases xs) (simp_all add: deserialize_string_def peek_invalid_type_def is_ws_def)
next
  case (JObj kvs)
  then show ?thesis by (cases kvs) (simp_all add: deserialize_string_def peek_invalid_type_def is_ws_def)
qed (simp add: deserialize_string_def peek_invalid_type_def is_ws_def ignore_scalar_def)

lemma key_start_member:
  "key_start (json_string k @ 58 # Y) = (if utf8_valid k then Inr (Some k, 58 # Y) else Inl InvalidUnicode)"
  by (simp add: key_start_def json_string_def parse_str_def parse_str_acc_json_escape)

lemma next_key_member:
  "next_key True (json_string k @ 58 # Y) = key_start (json_string k @ 58 # Y)"
  "next_key False (44 # json_string k @ 58 # Y) = key_start (json_string k @ 58 # Y)"
  by (simp_all add: next_key_def json_string_def is_ws_def)

lemma next_key_close: "next_key first (125 # rest) = Inr (None, 125 # rest)"
  by (simp add: next_key_def is_ws_def)

subsection \<open>Properties\<close>

text \<open>
  C33 (termination). serde_json's \<open>ignore_value\<close> loop terminates on every input: the
  domain of the three mutually recursive functions that model it is everything, whatever the
  bytes, the enclosing bracket and the stack of open brackets; and a successful run has
  consumed input (it returns a strictly shorter rest).
\<close>

lemma ignore_value_terminates:
  "ignore_loop_close_loop_key_then_loop_dom (Inl (bs, enclosing, scratch))
   \<and> ignore_loop_close_loop_key_then_loop_dom (Inr (Inl (bs, accept_comma, frame, scratch)))
   \<and> ignore_loop_close_loop_key_then_loop_dom (Inr (Inr (bs, frame, scratch)))
   \<and> (case ignore_loop bs enclosing scratch of Inl e \<Rightarrow> True | Inr r \<Rightarrow> length r < length bs)"
proof -
  have "ignore_loop_close_loop_key_then_loop_dom (Inl (bs, enclosing, scratch))"
    "ignore_loop_close_loop_key_then_loop_dom (Inr (Inl (bs, accept_comma, frame, scratch)))"
    "ignore_loop_close_loop_key_then_loop_dom (Inr (Inr (bs, frame, scratch)))"
  proof (induction bs enclosing scratch and bs accept_comma frame scratch and bs frame scratch
           rule: ignore_loop_close_loop_key_then_loop.induct)
    case (1 bs enclosing scratch)
    show ?case
      apply (rule ignore_loop_close_loop_key_then_loop.domintros)
      using 1 by simp_all
  next
    case (2 bs accept_comma frame scratch)
    show ?case
      apply (rule ignore_loop_close_loop_key_then_loop.domintros)
      using 2 by simp_all
  next
    case (3 bs frame scratch)
    show ?case
      apply (rule ignore_loop_close_loop_key_then_loop.domintros)
      using 3 by simp_all
  qed
  moreover have "case ignore_loop bs enclosing scratch of Inl e \<Rightarrow> True | Inr r \<Rightarrow> length r < length bs"
    using ignore_loop_shorter(1) [of bs enclosing scratch] by (simp split: sum.split)
  ultimately show ?thesis by blast
qed

text \<open>
  C34 (round trip). Whatever JSON document serde_json's compact writer produces, its
  \<open>ignore_value\<close> skips exactly that document and stops right after it, provided the
  numbers are tokens the reader accepts and what follows cannot continue a number.
\<close>

lemma ignore_value_print_json:
  "json_ok j \<Longrightarrow> num_delim rest \<Longrightarrow> ignore_value (print_json j @ rest) = Inr rest"
  unfolding ignore_value_def by (simp add: ignore_loop_print_json value_done_def)

lemma ignore_value_print_json_witness:
  "ignore_value (print_json (JObj [([97], JArr [JNum [49], JNull]), ([], JStr [34])]) @ [32]) = Inr [32]"
  using ignore_value_print_json [of "JObj [([97], JArr [JNum [49], JNull]), ([], JStr [34])]" "[32]"]
  by (simp add: num_token_def ignore_scalar_def ignore_integer_def ignore_frac_exp_def is_dig_def
        num_delim_def)

end
