(* ===== verification/Json_Read.thy ===== *)
theory Json_Read
  imports Json_Value
begin

text \<open>
  A reader of whole JSON documents, the one a client of the server applies to the
  answer (\<open>serde_json::from_slice::<serde_json::Value>\<close>, or any reader of RFC 8259): it
  returns the document tree, members in the order they were written and numbers as the
  tokens that were written. It is built from the same lexer pieces as the rest of the
  model (\<open>skip_ws\<close>, \<open>parse_str\<close>, \<open>ignore_scalar\<close>, \<open>key_start\<close>,
  \<open>parse_object_colon\<close>) with serde_json's errors, and recurses over the nesting of the
  document with a fuel argument: \<open>None\<close> is running out of fuel. Every call consumes
  input or hands over to a call that does, so twice the length of the input plus one is
  enough fuel (\<open>read_value_total\<close>), and \<open>read_json\<close> uses that much.
  The lemmas show that more fuel never changes a result, that the reader is total with
  that fuel, and that it reads back exactly what the writer \<open>print_json\<close> printed
  (\<open>read_value_print_json\<close>) when the numbers are number tokens and the strings and keys
  are UTF-8.
\<close>

definition scalar_json :: "byte \<Rightarrow> bytes \<Rightarrow> bytes \<Rightarrow> json" where
  "scalar_json c bs r =
     (if c = 110 then JNull else if c = 116 then JBool True else if c = 102 then JBool False
      else JNum (take (length bs - length r) bs))"

fun read_value :: "nat \<Rightarrow> bytes \<Rightarrow> (json_error + json \<times> bytes) option"
and read_elems :: "nat \<Rightarrow> json list \<Rightarrow> bytes \<Rightarrow> (json_error + json \<times> bytes) option"
and read_members :: "nat \<Rightarrow> (bytes \<times> json) list \<Rightarrow> bytes \<Rightarrow> (json_error + json \<times> bytes) option"
where
  "read_value 0 bs = None"
| "read_value (Suc n) bs =
     (case skip_ws bs of
        [] \<Rightarrow> Some (Inl EofWhileParsing)
      | c # rest \<Rightarrow>
          if c = 91 then
            (case skip_ws rest of
               [] \<Rightarrow> Some (Inl EofWhileParsing)
             | d # r \<Rightarrow> if d = 93 then Some (Inr (JArr [], r)) else read_elems n [] (d # r))
          else if c = 123 then
            (case skip_ws rest of
               [] \<Rightarrow> Some (Inl EofWhileParsing)
             | d # r \<Rightarrow> if d = 125 then Some (Inr (JObj [], r)) else read_members n [] (d # r))
          else if c = 34 then
            (case parse_str rest of Inl e \<Rightarrow> Some (Inl e) | Inr (s, r) \<Rightarrow> Some (Inr (JStr s, r)))
          else
            (case ignore_scalar c rest of
               Inl e \<Rightarrow> Some (Inl e)
             | Inr r \<Rightarrow> Some (Inr (scalar_json c (c # rest) r, r))))"
| "read_elems 0 acc bs = None"
| "read_elems (Suc n) acc bs =
     (case read_value n bs of
        None \<Rightarrow> None
      | Some (Inl e) \<Rightarrow> Some (Inl e)
      | Some (Inr (v, r)) \<Rightarrow>
          (case skip_ws r of
             [] \<Rightarrow> Some (Inl EofWhileParsing)
           | d # r' \<Rightarrow>
               if d = 93 then Some (Inr (JArr (acc @ [v]), r'))
               else if d = 44 then
                 (case skip_ws r' of
                    [] \<Rightarrow> Some (Inl EofWhileParsing)
                  | e # r'' \<Rightarrow>
                      if e = 93 then Some (Inl TrailingComma) else read_elems n (acc @ [v]) (e # r''))
               else Some (Inl ExpectedCommaOrEnd)))"
| "read_members 0 acc bs = None"
| "read_members (Suc n) acc bs =
     (case key_start (skip_ws bs) of
        Inl e \<Rightarrow> Some (Inl e)
      | Inr (None, r) \<Rightarrow> Some (Inl KeyMustBeAString)
      | Inr (Some k, r) \<Rightarrow>
          (case parse_object_colon r of
             Inl e \<Rightarrow> Some (Inl e)
           | Inr r' \<Rightarrow>
               (case read_value n r' of
                  None \<Rightarrow> None
                | Some (Inl e) \<Rightarrow> Some (Inl e)
                | Some (Inr (v, r'')) \<Rightarrow>
                    (case skip_ws r'' of
                       [] \<Rightarrow> Some (Inl EofWhileParsing)
                     | d # r3 \<Rightarrow>
                         if d = 125 then Some (Inr (JObj (acc @ [(k, v)]), r3))
                         else if d = 44 then read_members n (acc @ [(k, v)]) r3
                         else Some (Inl ExpectedCommaOrEnd)))))"

definition read_json :: "bytes \<Rightarrow> json_error + json" where
  "read_json bs =
     (case read_value (2 * length bs + 1) bs of
        None \<Rightarrow> Inl EofWhileParsing
      | Some (Inl e) \<Rightarrow> Inl e
      | Some (Inr (v, r)) \<Rightarrow> if skip_ws r = [] then Inr v else Inl TrailingCharacters)"

text \<open>Strings and keys of a document that a reader accepts are UTF-8.\<close>

fun json_utf8 :: "json \<Rightarrow> bool" where
  "json_utf8 (JStr s) = utf8_valid s"
| "json_utf8 (JArr xs) = (\<forall>x \<in> set xs. json_utf8 x)"
| "json_utf8 (JObj kvs) = (\<forall>kv \<in> set kvs. utf8_valid (fst kv) \<and> json_utf8 (snd kv))"
| "json_utf8 _ = True"

subsection \<open>Fuel\<close>

lemma read_shorter_fuel:
  "(\<forall>bs v r. read_value n bs = Some (Inr (v, r)) \<longrightarrow> length r < length bs)
   \<and> (\<forall>acc bs v r. read_elems n acc bs = Some (Inr (v, r)) \<longrightarrow> length r < length bs)
   \<and> (\<forall>acc bs v r. read_members n acc bs = Some (Inr (v, r)) \<longrightarrow> length r < length bs)"
proof (induction n)
  case 0
  then show ?case by simp
next
  case (Suc n)
  have v: "length r < length bs" if "read_value n bs = Some (Inr (v, r))" for bs v r
    using Suc that by blast
  have e: "length r < length bs" if "read_elems n acc bs = Some (Inr (v, r))" for acc bs v r
    using Suc that by blast
  have m: "length r < length bs" if "read_members n acc bs = Some (Inr (v, r))" for acc bs v r
    using Suc that by blast
  have "length r < length bs" if "read_value (Suc n) bs = Some (Inr (v, r))" for bs v r
    using that
    by (auto dest!: skip_ws_Cons_le ignore_scalar_le parse_str_shorter e m
        split: list.splits if_splits sum.splits prod.splits)
  moreover have "length r < length bs" if "read_elems (Suc n) acc bs = Some (Inr (v, r))" for acc bs v r
    using that
    by (auto dest!: skip_ws_Cons_le v e split: list.splits if_splits sum.splits prod.splits option.splits)
  moreover have "length r < length bs" if "read_members (Suc n) acc bs = Some (Inr (v, r))" for acc bs v r
    using that skip_ws_length [of bs]
    by (auto dest!: skip_ws_Cons_le key_start_shorter parse_object_colon_shorter v m
        split: list.splits if_splits sum.splits prod.splits option.splits)
  ultimately show ?case by blast
qed

lemma read_value_shorter: "read_value n bs = Some (Inr (v, r)) \<Longrightarrow> length r < length bs"
  using read_shorter_fuel by blast

lemma read_mono_fuel:
  "(\<forall>m bs x. read_value n bs = Some x \<longrightarrow> n \<le> m \<longrightarrow> read_value m bs = Some x)
   \<and> (\<forall>m acc bs x. read_elems n acc bs = Some x \<longrightarrow> n \<le> m \<longrightarrow> read_elems m acc bs = Some x)
   \<and> (\<forall>m acc bs x. read_members n acc bs = Some x \<longrightarrow> n \<le> m \<longrightarrow> read_members m acc bs = Some x)"
proof (induction n)
  case 0
  then show ?case by simp
next
  case (Suc n)
  have v: "read_value m bs = Some x" if "read_value n bs = Some x" "n \<le> m" for m bs x
    using Suc that by blast
  have e: "read_elems m acc bs = Some x" if "read_elems n acc bs = Some x" "n \<le> m" for m acc bs x
    using Suc that by blast
  have ms: "read_members m acc bs = Some x" if "read_members n acc bs = Some x" "n \<le> m" for m acc bs x
    using Suc that by blast
  have "read_value m bs = Some x" if a: "read_value (Suc n) bs = Some x" "Suc n \<le> m" for m bs x
  proof -
    obtain m' where m: "m = Suc m'" and nm: "n \<le> m'" using a(2) by (cases m) auto
    show ?thesis using a(1) unfolding m by (auto split: list.splits if_splits intro: e [OF _ nm] ms [OF _ nm])
  qed
  moreover have "read_elems m acc bs = Some x" if a: "read_elems (Suc n) acc bs = Some x" "Suc n \<le> m"
    for m acc bs x
  proof -
    obtain m' where m: "m = Suc m'" and nm: "n \<le> m'" using a(2) by (cases m) auto
    obtain y where y: "read_value n bs = Some y" by (cases "read_value n bs") (use a(1) in auto)
    then have "read_value m' bs = Some y" using v nm by blast
    then show ?thesis
      using a(1) y unfolding m by (auto split: sum.splits prod.splits list.splits if_splits intro: e [OF _ nm])
  qed
  moreover have "read_members m acc bs = Some x" if a: "read_members (Suc n) acc bs = Some x" "Suc n \<le> m"
    for m acc bs x
  proof -
    obtain m' where m: "m = Suc m'" and nm: "n \<le> m'" using a(2) by (cases m) auto
    show ?thesis
    proof (cases "\<exists>k r r'. key_start (skip_ws bs) = Inr (Some k, r) \<and> parse_object_colon r = Inr r'")
      case True
      then obtain k r r' where ks: "key_start (skip_ws bs) = Inr (Some k, r)"
        and c: "parse_object_colon r = Inr r'"
        by blast
      obtain y where y: "read_value n r' = Some y" by (cases "read_value n r'") (use a(1) ks c in auto)
      then have "read_value m' r' = Some y" using v nm by blast
      then show ?thesis
        using a(1) ks c y unfolding m
        by (auto split: sum.splits prod.splits list.splits if_splits intro: ms [OF _ nm])
    next
      case False
      then show ?thesis using a(1) unfolding m by (auto split: sum.splits prod.splits option.splits)
    qed
  qed
  ultimately show ?case by blast
qed
lemma read_total_fuel:
  "(\<forall>bs. 2 * length bs < n \<longrightarrow> read_value n bs \<noteq> None)
   \<and> (\<forall>acc bs. 2 * length bs + 1 < n \<longrightarrow> read_elems n acc bs \<noteq> None)
   \<and> (\<forall>acc bs. 2 * length bs + 1 < n \<longrightarrow> read_members n acc bs \<noteq> None)"
proof (induction n)
  case 0
  then show ?case by simp
next
  case (Suc n)
  have v: "read_value n bs \<noteq> None" if "2 * length bs < n" for bs
    using Suc that by blast
  have e: "read_elems n acc bs \<noteq> None" if "2 * length bs + 1 < n" for acc bs
    using Suc that by blast
  have m: "read_members n acc bs \<noteq> None" if "2 * length bs + 1 < n" for acc bs
    using Suc that by blast
  have vn: "n \<le> 2 * length bs" if "read_value n bs = None" for bs
  proof (rule ccontr)
    assume "\<not> n \<le> 2 * length bs"
    then show False using v [of bs] that by simp
  qed
  have "read_value (Suc n) bs \<noteq> None" if "2 * length bs < Suc n" for bs
  proof (cases "skip_ws bs")
    case (Cons c rest)
    have "Suc (length rest) \<le> length bs" using Cons by (rule skip_ws_Cons_le)
    then have "2 * length (skip_ws rest) + 1 < n" using that skip_ws_length [of rest] by linarith
    then show ?thesis
      using Cons e [where bs = "skip_ws rest"] m [where bs = "skip_ws rest"]
      by (auto split: list.splits sum.splits prod.splits)
  qed simp
  moreover have "read_elems (Suc n) acc bs \<noteq> None" if "2 * length bs + 1 < Suc n" for acc bs
    using that v [of bs]
    by (auto split: list.splits if_splits sum.splits prod.splits option.splits
        dest!: skip_ws_Cons_le read_value_shorter intro!: e [simplified not_None_eq])
  moreover have "read_members (Suc n) acc bs \<noteq> None" if "2 * length bs + 1 < Suc n" for acc bs
    using that skip_ws_length [of bs]
    by (auto split: list.splits if_splits sum.splits prod.splits option.splits
        dest!: skip_ws_Cons_le read_value_shorter key_start_shorter parse_object_colon_shorter vn
        intro!: m [simplified not_None_eq])
  ultimately show ?case by blast
qed

lemma read_value_mono: "read_value n bs = Some x \<Longrightarrow> n \<le> m \<Longrightarrow> read_value m bs = Some x"
  using read_mono_fuel by blast

lemma read_elems_mono: "read_elems n acc bs = Some x \<Longrightarrow> n \<le> m \<Longrightarrow> read_elems m acc bs = Some x"
  using read_mono_fuel by blast

lemma read_members_mono: "read_members n acc bs = Some x \<Longrightarrow> n \<le> m \<Longrightarrow> read_members m acc bs = Some x"
  using read_mono_fuel by blast

lemma read_value_total: "2 * length bs < n \<Longrightarrow> \<exists>x. read_value n bs = Some x"
  using read_total_fuel by blast

lemma read_value_fuel:
  assumes "read_value n bs = Some x" and "2 * length bs < m"
  shows "read_value m bs = Some x"
proof -
  obtain y where y: "read_value m bs = Some y" using read_value_total [OF assms(2)] by blast
  have "read_value (max n m) bs = Some x" by (rule read_value_mono [OF assms(1)]) simp
  moreover have "read_value (max n m) bs = Some y" by (rule read_value_mono [OF y]) simp
  ultimately show ?thesis using y by simp
qed

lemma read_json_read_value:
  assumes "read_value n bs = Some (Inr (v, r))" and "skip_ws r = []"
  shows "read_json bs = Inr v"
  using read_value_fuel [OF assms(1), of "2 * length bs + 1"] assms(2) by (simp add: read_json_def)

lemma num_delim_comma: "num_delim (44 # rest)"
  by (simp add: num_delim_def is_dig_def)

subsection \<open>Reading what the writer printed\<close>

lemma read_elems_print:
  assumes "\<And>y rest. y \<in> set (x # xs) \<Longrightarrow> num_delim rest \<Longrightarrow>
             \<exists>n. read_value n (print_json y @ rest) = Some (Inr (y, rest))"
    and "\<forall>y \<in> set (x # xs). json_ok y"
  shows "\<exists>n. read_elems n acc (print_json x @ concat (map (\<lambda>y. 44 # print_json y) xs) @ 93 # rest)
             = Some (Inr (JArr (acc @ x # xs), rest))"
  using assms
proof (induction xs arbitrary: x acc)
  case Nil
  obtain n where "read_value n (print_json x @ 93 # rest) = Some (Inr (x, 93 # rest))"
    using Nil.prems(1) [of x "93 # rest"] num_delim_close by auto
  then show ?case by (intro exI [of _ "Suc n"]) (simp add: is_ws_def)
next
  case (Cons y ys)
  let ?tail = "concat (map (\<lambda>y. 44 # print_json y) ys) @ 93 # rest"
  obtain n1 where n1: "read_value n1 (print_json x @ 44 # print_json y @ ?tail) = Some (Inr (x, 44 # print_json y @ ?tail))"
    using Cons.prems(1) [of x "44 # print_json y @ ?tail"] num_delim_comma by auto
  obtain n2 where n2: "read_elems n2 (acc @ [x]) (print_json y @ ?tail) = Some (Inr (JArr ((acc @ [x]) @ y # ys), rest))"
    using Cons.IH [of y "acc @ [x]"] Cons.prems by auto
  obtain c r where c: "print_json y = c # r" "\<not> is_ws c" "c \<noteq> 93"
    using Cons.prems(2) by (auto elim: print_json_head)
  have r1: "read_value (max n1 n2) (print_json x @ 44 # print_json y @ ?tail)
              = Some (Inr (x, 44 # print_json y @ ?tail))"
    by (rule read_value_mono [OF n1]) simp
  have r2: "read_elems (max n1 n2) (acc @ [x]) (print_json y @ ?tail)
              = Some (Inr (JArr ((acc @ [x]) @ y # ys), rest))"
    by (rule read_elems_mono [OF n2]) simp
  show ?case
    using c r1 r2 by (intro exI [of _ "Suc (max n1 n2)"]) (simp add: is_ws_def)
qed

lemma read_members_print:
  assumes "\<And>kv rest. kv \<in> set (kv0 # kvs) \<Longrightarrow> num_delim rest \<Longrightarrow>
             \<exists>n. read_value n (print_json (snd kv) @ rest) = Some (Inr (snd kv, rest))"
    and "\<forall>kv \<in> set (kv0 # kvs). json_ok (snd kv) \<and> utf8_valid (fst kv)"
  shows "\<exists>n. read_members n acc (json_string (fst kv0) @ 58 # print_json (snd kv0)
               @ concat (map (\<lambda>kv. 44 # json_string (fst kv) @ 58 # print_json (snd kv)) kvs) @ 125 # rest)
             = Some (Inr (JObj (acc @ kv0 # kvs), rest))"
  using assms
proof (induction kvs arbitrary: kv0 acc)
  case Nil
  obtain n where n: "read_value n (print_json (snd kv0) @ 125 # rest) = Some (Inr (snd kv0, 125 # rest))"
    using Nil.prems(1) [of kv0 "125 # rest"] num_delim_close by auto
  show ?case
    using n Nil.prems(2)
    by (intro exI [of _ "Suc n"])
      (simp add: json_string_def key_start_def parse_str_def parse_str_acc_json_escape
        parse_object_colon_def is_ws_def)
next
  case (Cons kv kvs)
  let ?m = "\<lambda>kv. json_string (fst kv) @ 58 # print_json (snd kv)"
  let ?tail = "concat (map (\<lambda>kv. 44 # ?m kv) kvs) @ 125 # rest"
  obtain n1 where n1: "read_value n1 (print_json (snd kv0) @ 44 # ?m kv @ ?tail)
                         = Some (Inr (snd kv0, 44 # ?m kv @ ?tail))"
    using Cons.prems(1) [of kv0 "44 # ?m kv @ ?tail"] num_delim_comma by auto
  obtain n2 where n2: "read_members n2 (acc @ [kv0]) (?m kv @ ?tail)
                         = Some (Inr (JObj ((acc @ [kv0]) @ kv # kvs), rest))"
    using Cons.IH [of kv "acc @ [kv0]"] Cons.prems by auto
  have r1: "read_value (max n1 n2) (print_json (snd kv0) @ 44 # ?m kv @ ?tail)
              = Some (Inr (snd kv0, 44 # ?m kv @ ?tail))"
    by (rule read_value_mono [OF n1]) simp
  have r2: "read_members (max n1 n2) (acc @ [kv0]) (?m kv @ ?tail)
              = Some (Inr (JObj ((acc @ [kv0]) @ kv # kvs), rest))"
    by (rule read_members_mono [OF n2]) simp
  have k: "key_start (skip_ws (json_string (fst kv0) @ X)) = Inr (Some (fst kv0), X)" if "58 = hd X" for X
    using Cons.prems(2) that
    by (cases X) (simp_all add: json_string_def key_start_def parse_str_def parse_str_acc_json_escape is_ws_def)
  show ?case
    using r1 r2 k [of "58 # print_json (snd kv0) @ 44 # ?m kv @ ?tail"]
    by (intro exI [of _ "Suc (max n1 n2)"]) (simp add: parse_object_colon_def is_ws_def)
qed

lemma read_value_print_json:
  "json_ok j \<Longrightarrow> json_utf8 j \<Longrightarrow> num_delim rest \<Longrightarrow>
     \<exists>n. read_value n (print_json j @ rest) = Some (Inr (j, rest))"
proof (induction j arbitrary: rest)
  case JNull
  show ?case
    by (intro exI [of _ 1]) (simp add: is_ws_def ignore_scalar_def scalar_json_def)
next
  case (JBool b)
  show ?case
    by (intro exI [of _ 1]) (cases b; simp add: is_ws_def ignore_scalar_def scalar_json_def)
next
  case (JNum t)
  then obtain c r where t: "t = c # r" and c: "c = 45 \<or> is_dig c"
    and sc: "ignore_scalar c (r @ rest) = Inr rest"
    by (auto elim: num_token_append)
  have "\<not> is_ws c" "c \<noteq> 91" "c \<noteq> 123" "c \<noteq> 34" "c \<noteq> 110" "c \<noteq> 116" "c \<noteq> 102"
    using c is_dig_cases [of c] by (auto simp: is_ws_def)
  then show ?case
    using t sc by (intro exI [of _ 1]) (simp add: scalar_json_def)
next
  case (JStr s)
  then show ?case
    by (intro exI [of _ 1])
      (simp add: is_ws_def json_string_def parse_str_def parse_str_acc_json_escape)
next
  case (JArr xs)
  show ?case
  proof (cases xs)
    case Nil
    then show ?thesis by (intro exI [of _ 1]) (simp add: is_ws_def)
  next
    case (Cons x xs')
    obtain c r where c: "print_json x = c # r" "\<not> is_ws c" "c \<noteq> 93"
      using JArr.prems(1) Cons by (auto elim: print_json_head)
    obtain n where "read_elems n [] (print_json x @ concat (map (\<lambda>y. 44 # print_json y) xs') @ 93 # rest)
                      = Some (Inr (JArr ([] @ x # xs'), rest))"
    proof -
      have ih: "\<exists>n. read_value n (print_json y @ r') = Some (Inr (y, r'))"
        if "y \<in> set (x # xs')" "num_delim r'" for y r'
        using JArr.IH [of y r'] JArr.prems that Cons by auto
      show ?thesis using read_elems_print [of x xs' "[]" rest, OF ih] JArr.prems Cons that by auto
    qed
    then show ?thesis
      using Cons c by (intro exI [of _ "Suc n"]) (simp add: is_ws_def)
  qed
next
  case (JObj kvs)
  show ?case
  proof (cases kvs)
    case Nil
    then show ?thesis by (intro exI [of _ 1]) (simp add: is_ws_def)
  next
    case (Cons kv kvs')
    have ih: "\<exists>n. read_value n (print_json (snd kv) @ rest) = Some (Inr (snd kv, rest))"
      if "kv \<in> set kvs" "num_delim rest" for kv rest
    proof -
      have "snd kv \<in> Basic_BNFs.snds kv" by (cases kv) simp
      then show ?thesis using JObj.IH [OF that(1)] JObj.prems that by simp
    qed
    obtain n where "read_members n [] (json_string (fst kv) @ 58 # print_json (snd kv)
                      @ concat (map (\<lambda>kv. 44 # json_string (fst kv) @ 58 # print_json (snd kv)) kvs') @ 125 # rest)
                      = Some (Inr (JObj ([] @ kv # kvs'), rest))"
      using read_members_print [of kv kvs' "[]" rest] ih JObj.prems Cons by auto
    then show ?thesis
      using Cons by (intro exI [of _ "Suc n"]) (simp add: is_ws_def json_string_def)
  qed
qed

subsection \<open>Properties\<close>

text \<open>
  C11 (round trip). What serde_json's compact writer prints is read back as the same
  document by a JSON reader: for every document whose numbers are number tokens and whose
  strings and keys are UTF-8, \<open>read_json (print_json j) = Inr j\<close>. The writer's
  separators, brackets, member order and string escapes are therefore the ones the JSON
  grammar expects.
\<close>

theorem read_json_print_json:
  "json_ok j \<Longrightarrow> json_utf8 j \<Longrightarrow> read_json (print_json j) = Inr j"
  using read_value_print_json [of j "[]"] by (auto simp: num_delim_def intro: read_json_read_value)

theorem read_json_print_json_witness:
  "read_json (print_json (JObj [([121, 115], JArr [JNum [49], JNull, JStr [34, 104]]), ([], JObj [])]))
       = Inr (JObj [([121, 115], JArr [JNum [49], JNull, JStr [34, 104]]), ([], JObj [])])"
proof -
  have ok: "json_ok (JObj [([121, 115], JArr [JNum [49], JNull, JStr [34, 104]]), ([], JObj [])])"
    by (simp add: num_token_def ignore_scalar_def ignore_integer_def ignore_frac_exp_def is_dig_def)
  have u: "json_utf8 (JObj [([121, 115], JArr [JNum [49], JNull, JStr [34, 104]]), ([], JObj [])])"
    by (simp add: utf8_valid.simps)
  show ?thesis using read_json_print_json [OF ok u] .
qed

end
