(* ===== verification/Tensor.thy ===== *)
theory Tensor
  imports Prelude
begin

text \<open>
  The candle tensor operations the sources call, on a contiguous row-major model of a
  tensor: a shape (list of dimensions) and the flat list of its elements. The element
  type is a type variable (\<open>u32\<close> for token ids; the \<open>f32\<close> embeddings are an opaque
  \<open>'f\<close>). Storage placement on a device is not modelled: every tensor of the sources lives
  on \<open>Device::Cpu\<close>.
  \<^item> \<open>tensor_new\<close>: \<open>Tensor::new(&tokens[..], &device)\<close> (model.rs, \<open>predict\<close>);
  \<^item> \<open>unsqueeze\<close>: \<open>.unsqueeze(0)\<close>, which inserts a dimension of size 1 and fails when
    the position is beyond the rank;
  \<^item> \<open>zeros_like\<close>: \<open>token_ids.zeros_like()\<close>, the all-zero token type ids;
  \<^item> \<open>to_vec3\<close>: \<open>.to_vec3()\<close> (main.rs, handler), which fails unless the rank is 3 and
    otherwise reads element \<open>(i, j, k)\<close> at offset \<open>i * d2 * d3 + j * d3 + k\<close>.
\<close>

record 'a tensor =
  shape :: "nat list"
  data :: "'a list"

definition elem_count :: "nat list \<Rightarrow> nat" where
  "elem_count dims = prod_list dims"

definition is_tensor :: "'a tensor \<Rightarrow> bool" where
  "is_tensor t \<longleftrightarrow> length (data t) = elem_count (shape t)"

definition tensor_new :: "'a list \<Rightarrow> 'd \<Rightarrow> 'a tensor outcome" where
  "tensor_new xs dev = Ok \<lparr>shape = [length xs], data = xs\<rparr>"

definition unsqueeze :: "nat \<Rightarrow> 'a tensor \<Rightarrow> 'a tensor outcome" where
  "unsqueeze d t =
     (if d \<le> length (shape t)
      then Ok (t\<lparr>shape := take d (shape t) @ 1 # drop d (shape t)\<rparr>)
      else Err CandleError)"

definition zeros_like :: "'a::zero tensor \<Rightarrow> 'a tensor outcome" where
  "zeros_like t = Ok \<lparr>shape = shape t, data = replicate (elem_count (shape t)) 0\<rparr>"

definition row_slice :: "'a list \<Rightarrow> nat \<Rightarrow> nat \<Rightarrow> 'a list" where
  "row_slice xs start len = take len (drop start xs)"

definition to_vec3 :: "'a tensor \<Rightarrow> 'a list list list outcome" where
  "to_vec3 t =
     (case shape t of
        [d1, d2, d3] \<Rightarrow>
          Ok (map (\<lambda>i. map (\<lambda>j. row_slice (data t) (i * d2 * d3 + j * d3) d3) [0..<d2]) [0..<d1])
      | _ \<Rightarrow> Err UnexpectedNumberOfDims)"

subsection \<open>Shapes\<close>

lemma elem_count_simps [simp]:
  "elem_count [] = 1"
  "elem_count (d # ds) = d * elem_count ds"
  by (simp_all add: elem_count_def)

lemma elem_count_append [simp]: "elem_count (xs @ ys) = elem_count xs * elem_count ys"
  by (simp add: elem_count_def)

lemma elem_count_take_drop: "elem_count (take d ds) * elem_count (drop d ds) = elem_count ds"
  by (metis elem_count_append append_take_drop_id)

lemma tensor_new_is_tensor: "tensor_new xs dev = Ok t \<Longrightarrow> is_tensor t \<and> shape t = [length xs]"
  by (auto simp: tensor_new_def is_tensor_def)

lemma unsqueeze_is_tensor:
  "is_tensor t \<Longrightarrow> unsqueeze d t = Ok t' \<Longrightarrow> is_tensor t'"
  by (auto simp: unsqueeze_def is_tensor_def elem_count_take_drop split: if_splits)

lemma zeros_like_is_tensor: "zeros_like t = Ok t' \<Longrightarrow> is_tensor t' \<and> shape t' = shape t"
  by (auto simp: zeros_like_def is_tensor_def)

lemma unsqueeze0_tensor_new:
  "and_then (tensor_new xs dev) (unsqueeze 0) = Ok \<lparr>shape = [1, length xs], data = xs\<rparr>"
  by (simp add: tensor_new_def unsqueeze_def)

subsection \<open>Reading a rank-3 tensor back as nested vectors\<close>

lemma concat_slices:
  "concat (map (\<lambda>j. row_slice xs (base + j * c) c) [0..<b]) = row_slice xs base (b * c)"
proof (induction b)
  case 0
  then show ?case by (simp add: row_slice_def)
next
  case (Suc b)
  have "row_slice xs base (b * c + c) = row_slice xs base (b * c) @ row_slice xs (base + b * c) c"
    by (simp only: row_slice_def take_add drop_drop add.commute [of "b * c" base])
  with Suc show ?case by (simp add: add.commute)
qed

lemma length_slice: "start + len \<le> length xs \<Longrightarrow> length (row_slice xs start len) = len"
  by (simp add: row_slice_def)

lemma slice_all: "length xs = n \<Longrightarrow> row_slice xs 0 n = xs"
  by (simp add: row_slice_def)

lemma row_major_bound:
  assumes "i < a" and "j < (b::nat)"
  shows "i * b * c + j * c + c \<le> a * b * c"
proof -
  have "i * b + j + 1 \<le> a * b"
  proof -
    have "i * b + j + 1 \<le> i * b + b" using assms(2) by simp
    also have "\<dots> = Suc i * b" by simp
    also have "\<dots> \<le> a * b" using assms(1) by (intro mult_le_mono1) simp
    finally show ?thesis .
  qed
  then have "(i * b + j + 1) * c \<le> a * b * c" by (intro mult_le_mono1)
  then show ?thesis by (simp add: algebra_simps)
qed

lemma to_vec3_rows:
  assumes "is_tensor t" and "shape t = [d1, d2, d3]"
  shows "to_vec3 t =
           Ok (map (\<lambda>i. map (\<lambda>j. row_slice (data t) (i * d2 * d3 + j * d3) d3) [0..<d2]) [0..<d1])"
  using assms(2) by (simp add: to_vec3_def)

lemma to_vec3_concat:
  assumes "is_tensor t" and "shape t = [d1, d2, d3]"
  shows "concat (map concat (map (\<lambda>i. map (\<lambda>j. row_slice (data t) (i * d2 * d3 + j * d3) d3) [0..<d2]) [0..<d1]))
         = data t"
proof -
  have row: "concat (map (\<lambda>j. row_slice (data t) (i * d2 * d3 + j * d3) d3) [0..<d2])
             = row_slice (data t) (0 + i * (d2 * d3)) (d2 * d3)" for i
    using concat_slices [of "data t" "i * d2 * d3" d3 d2] by (simp add: mult.assoc)
  have "concat (map concat (map (\<lambda>i. map (\<lambda>j. row_slice (data t) (i * d2 * d3 + j * d3) d3) [0..<d2]) [0..<d1]))
        = concat (map (\<lambda>i. row_slice (data t) (0 + i * (d2 * d3)) (d2 * d3)) [0..<d1])"
    by (simp only: map_map comp_def row)
  also have "\<dots> = row_slice (data t) 0 (d1 * (d2 * d3))"
    by (rule concat_slices)
  also have "\<dots> = data t"
    using assms by (intro slice_all) (simp add: is_tensor_def)
  finally show ?thesis .
qed

lemma to_vec3_lengths:
  assumes "is_tensor t" and "shape t = [d1, d2, d3]"
    and "r \<in> set (map (\<lambda>i. map (\<lambda>j. row_slice (data t) (i * d2 * d3 + j * d3) d3) [0..<d2]) [0..<d1])"
  shows "length r = d2 \<and> (\<forall>x \<in> set r. length x = d3)"
proof -
  from assms(3) obtain i where i: "i < d1"
    and r: "r = map (\<lambda>j. row_slice (data t) (i * d2 * d3 + j * d3) d3) [0..<d2]"
    by auto
  have "length (row_slice (data t) (i * d2 * d3 + j * d3) d3) = d3" if "j < d2" for j
  proof (rule length_slice)
    show "i * d2 * d3 + j * d3 + d3 \<le> length (data t)"
      using row_major_bound [OF i that, of d3] assms(1,2) by (simp add: is_tensor_def mult.assoc)
  qed
  with r show ?thesis by auto
qed

subsection \<open>Properties\<close>

text \<open>
  C29. \<open>to_vec3\<close> reads a well-formed rank-3 tensor of shape \<open>[d1, d2, d3]\<close> back as
  \<open>d1\<close> rows of \<open>d2\<close> vectors of \<open>d3\<close> elements whose concatenation is the tensor's
  data, in order: nothing is lost, duplicated or reordered on the way to the JSON array.
\<close>

theorem to_vec3_roundtrip:
  assumes "is_tensor t" and "shape t = [d1, d2, d3]"
  shows "\<exists>v. to_vec3 t = Ok v \<and> length v = d1
              \<and> (\<forall>r \<in> set v. length r = d2 \<and> (\<forall>x \<in> set r. length x = d3))
              \<and> concat (map concat v) = data t"
  using to_vec3_rows [OF assms] to_vec3_concat [OF assms] to_vec3_lengths [OF assms] by auto

theorem to_vec3_roundtrip_witness:
  "to_vec3 \<lparr>shape = [1, 2, 3], data = [1, 2, 3, 4, 5, 6 :: int]\<rparr> = Ok [[[1, 2, 3], [4, 5, 6]]]
   \<and> concat (map concat [[[1, 2, 3], [4, 5, 6 :: int]]]) = [1, 2, 3, 4, 5, 6]"
proof -
  have "is_tensor \<lparr>shape = [1, 2, 3], data = [1, 2, 3, 4, 5, 6 :: int]\<rparr>"
    by (simp add: is_tensor_def)
  from to_vec3_roundtrip [OF this, of 1 2 3] show ?thesis
    by (simp add: to_vec3_def row_slice_def upt_rec)
qed

end
