(* ===== verification/Tokenizer.thy ===== *)
theory Tokenizer
  imports Prelude
begin

text \<open>
  The tokenizer adapter: the parts of \<open>tokenizers::TokenizerImpl\<close> that the sources
  configure and call.
  \<^item> The segmentation of a text into token ids (normalizer, pre-tokenizer and WordPiece
    model, loaded from \<open>tokenizer.json\<close>) is an opaque function \<open>tk_model\<close>: a
    library the sources only call. It may fail (\<open>Err\<close>).
  \<^item> The post-processor adds a fixed prefix and suffix of special tokens (\<open>[CLS]\<close> and
    \<open>[SEP]\<close> for BERT) when \<open>encode\<close> is called with \<open>add_special_tokens = true\<close>.
  \<^item> Padding and truncation are the two optional parameters that \<open>Bert::new\<close> clears
    with \<open>with_padding(None)\<close> and \<open>with_truncation(None)\<close> (model.rs lines 63--67).
  \<open>encode\<close> follows the library's order: segment, truncate (reserving room for the
  special tokens), add the special tokens, pad.
\<close>

record truncation_params =
  max_length :: nat
  stride :: nat

datatype padding_strategy = BatchLongest | Fixed nat

record padding_params =
  pad_strategy :: padding_strategy
  pad_id :: u32

record tokenizer =
  tk_model :: "string \<Rightarrow> u32 list outcome"
  tk_prefix :: "u32 list"
  tk_suffix :: "u32 list"
  tk_padding :: "padding_params option"
  tk_truncation :: "truncation_params option"

record encoding =
  enc_ids :: "u32 list"
  enc_type_ids :: "u32 list"
  enc_attention_mask :: "u32 list"

definition added_tokens :: "tokenizer \<Rightarrow> nat" where
  "added_tokens tk = length (tk_prefix tk) + length (tk_suffix tk)"

definition with_padding :: "padding_params option \<Rightarrow> tokenizer \<Rightarrow> tokenizer" where
  "with_padding p tk = tk\<lparr>tk_padding := p\<rparr>"

definition with_truncation :: "truncation_params option \<Rightarrow> tokenizer \<Rightarrow> tokenizer outcome" where
  "with_truncation p tk =
     (case p of
        None \<Rightarrow> Ok (tk\<lparr>tk_truncation := None\<rparr>)
      | Some q \<Rightarrow>
          (if max_length q - added_tokens tk < stride q then Err TruncationParamError
           else Ok (tk\<lparr>tk_truncation := Some q\<rparr>)))"

definition truncate :: "tokenizer \<Rightarrow> bool \<Rightarrow> u32 list \<Rightarrow> u32 list" where
  "truncate tk add_special ids =
     (case tk_truncation tk of
        None \<Rightarrow> ids
      | Some q \<Rightarrow> take (max_length q - (if add_special then added_tokens tk else 0)) ids)"

definition post_process :: "tokenizer \<Rightarrow> bool \<Rightarrow> u32 list \<Rightarrow> u32 list" where
  "post_process tk add_special ids =
     (if add_special then tk_prefix tk @ ids @ tk_suffix tk else ids)"

definition pad :: "tokenizer \<Rightarrow> u32 list \<Rightarrow> u32 list" where
  "pad tk ids =
     (case tk_padding tk of
        None \<Rightarrow> ids
      | Some p \<Rightarrow>
          (case pad_strategy p of
             BatchLongest \<Rightarrow> ids
           | Fixed n \<Rightarrow> ids @ replicate (n - length ids) (pad_id p)))"

definition encode :: "tokenizer \<Rightarrow> string \<Rightarrow> bool \<Rightarrow> encoding outcome" where
  "encode tk text add_special =
     and_then (tk_model tk text) (\<lambda>ids.
       let real = post_process tk add_special (truncate tk add_special ids);
           padded = pad tk real
       in Ok \<lparr>enc_ids = padded,
              enc_type_ids = replicate (length padded) 0,
              enc_attention_mask = replicate (length real) 1 @ replicate (length padded - length real) 0\<rparr>)"

definition unconfigured :: "tokenizer \<Rightarrow> bool" where
  "unconfigured tk \<longleftrightarrow> tk_padding tk = None \<and> tk_truncation tk = None"

subsection \<open>Properties\<close>

lemma with_truncation_None: "with_truncation None tk = Ok (tk\<lparr>tk_truncation := None\<rparr>)"
  by (simp add: with_truncation_def)

lemma clear_padding_truncation_unconfigured:
  "with_truncation None (with_padding None tk) = Ok tk' \<Longrightarrow> unconfigured tk'"
  by (auto simp: with_truncation_def with_padding_def unconfigured_def)

lemma clear_padding_truncation_segmenter:
  "with_truncation None (with_padding None tk) = Ok tk' \<Longrightarrow>
     tk_model tk' = tk_model tk \<and> tk_prefix tk' = tk_prefix tk \<and> tk_suffix tk' = tk_suffix tk"
  by (auto simp: with_truncation_def with_padding_def)

lemma encode_unconfigured:
  assumes "unconfigured tk" and "tk_model tk text = Ok ids"
  shows "encode tk text True =
           Ok \<lparr>enc_ids = tk_prefix tk @ ids @ tk_suffix tk,
               enc_type_ids = replicate (added_tokens tk + length ids) 0,
               enc_attention_mask = replicate (added_tokens tk + length ids) 1\<rparr>"
  using assms
  by (simp add: encode_def unconfigured_def truncate_def post_process_def pad_def added_tokens_def)

lemma encode_error:
  "tk_model tk text = Err e \<Longrightarrow> encode tk text b = Err e"
  by (simp add: encode_def)

lemma encode_panic:
  "tk_model tk text = Panicked e \<Longrightarrow> encode tk text b = Panicked e"
  by (simp add: encode_def)

end
