(* ===== verification/Bert.thy ===== *)
theory Bert
  imports Tensor Tokenizer
begin

text \<open>
  The model service of src/src/model.rs: the struct \<open>Bert\<close> (an encoder network, a
  tokenizer and a device), its constructor \<open>Bert::new\<close> and its one operation
  \<open>Bert::predict\<close>.
  \<^item> The collaborators \<open>Bert::new\<close> calls (hf-hub's \<open>Api\<close>, \<open>std::fs\<close>,
    \<open>serde_json\<close>, \<open>Tokenizer::from_file\<close>, candle's \<open>VarBuilder\<close> and
    \<open>BertModel::load\<close>) are the fields of an environment record \<open>hub_env\<close>; each may
    fail. \<open>bert_new\<close> calls them in the order of the source and stops at the first
    failure, as each \<open>?\<close> does; the one \<open>unwrap\<close> (line 67) becomes a panic on
    \<open>Err\<close>.
  \<^item> The encoder network is opaque: a configuration and a forward function. Its contract
    (spec section 4.2) is the predicate \<open>forward_spec\<close>: on token ids and type ids of shape
    \<open>[1, n]\<close> with \<open>0 < n \<le> max_position_embeddings\<close> it returns a tensor of shape
    \<open>[1, n, hidden_size]\<close>; on longer inputs it fails (position embeddings run out).
  \<^item> \<open>predict\<close> is the source's pipeline: encode with special tokens, build the
    \<open>[1, n]\<close> id tensor, its all-zero type ids, print, forward, print.
\<close>

datatype device = Cpu | Cuda nat | Metal nat

datatype hidden_act = Gelu | GeluApproximate | Relu

record config =
  vocab_size :: nat
  hidden_size :: nat
  max_position_embeddings :: nat
  hidden_act :: hidden_act

datatype repo_type = Model | Dataset | Space

record repo =
  repo_id :: string
  repo_type :: repo_type
  repo_revision :: string

record 'f bert_model =
  bm_config :: config
  bm_forward :: "u32 tensor \<Rightarrow> u32 tensor \<Rightarrow> u32 tensor option \<Rightarrow> 'f tensor outcome"

record 'f bert =
  model :: "'f bert_model"
  tokenizer :: tokenizer
  device :: device

record ('vb, 'f) hub_env =
  api_new :: "unit outcome"
  api_get :: "repo \<Rightarrow> string \<Rightarrow> string outcome"
  read_to_string :: "string \<Rightarrow> string outcome"
  config_from_str :: "string \<Rightarrow> config outcome"
  tokenizer_from_file :: "string \<Rightarrow> tokenizer outcome"
  vb_from_pth :: "string \<Rightarrow> device \<Rightarrow> 'vb outcome"
  vb_from_mmaped_safetensors :: "string list \<Rightarrow> device \<Rightarrow> 'vb outcome"
  bert_load :: "'vb \<Rightarrow> config \<Rightarrow> 'f bert_model outcome"

subsection \<open>Bert::new\<close>

definition default_model :: string where
  "default_model = ''sentence-transformers/all-MiniLM-L6-v2''"

definition default_revision :: string where
  "default_revision = ''refs/pr/21''"

fun resolve_model_revision :: "string option \<Rightarrow> string option \<Rightarrow> string \<times> string" where
  "resolve_model_revision (Some model_id) (Some revision) = (model_id, revision)"
| "resolve_model_revision (Some model_id) None = (model_id, ''main'')"
| "resolve_model_revision None (Some revision) = (default_model, revision)"
| "resolve_model_revision None None = (default_model, default_revision)"

definition repo_with_revision :: "string \<Rightarrow> repo_type \<Rightarrow> string \<Rightarrow> repo" where
  "repo_with_revision i t r = \<lparr>repo_id = i, repo_type = t, repo_revision = r\<rparr>"

definition weights_file :: "bool \<Rightarrow> string" where
  "weights_file use_torch = (if use_torch then ''pytorch_model.bin'' else ''model.safetensors'')"

definition artifact_names :: "bool \<Rightarrow> string list" where
  "artifact_names use_torch = [''config.json'', ''tokenizer.json'', weights_file use_torch]"

definition fetch_artifacts :: "('vb, 'f) hub_env \<Rightarrow> repo \<Rightarrow> bool \<Rightarrow> (string \<times> string \<times> string) outcome" where
  "fetch_artifacts E repo use_torch =
     and_then (api_new E) (\<lambda>_.
     and_then (api_get E repo ''config.json'') (\<lambda>config.
     and_then (api_get E repo ''tokenizer.json'') (\<lambda>tokenizer.
     and_then (api_get E repo (weights_file use_torch)) (\<lambda>weights.
     Ok (config, tokenizer, weights)))))"

definition load_var_builder :: "('vb, 'f) hub_env \<Rightarrow> bool \<Rightarrow> string \<Rightarrow> device \<Rightarrow> 'vb outcome" where
  "load_var_builder E use_torch weights_filename dev =
     (if use_torch then vb_from_pth E weights_filename dev
      else vb_from_mmaped_safetensors E [weights_filename] dev)"

definition apply_gelu_flag :: "bool \<Rightarrow> config \<Rightarrow> config" where
  "apply_gelu_flag approximate_gelu cfg =
     (if approximate_gelu then cfg\<lparr>hidden_act := GeluApproximate\<rparr> else cfg)"

definition bert_new ::
  "('vb, 'f) hub_env \<Rightarrow> string option \<Rightarrow> string option \<Rightarrow> bool \<Rightarrow> bool \<Rightarrow> 'f bert outcome" where
  "bert_new E model_id revision use_torch approximate_gelu =
     (let dev = Cpu;
          (mid, rev) = resolve_model_revision model_id revision;
          repo = repo_with_revision mid Model rev
      in and_then (fetch_artifacts E repo use_torch) (\<lambda>(config_filename, tokenizer_filename, weights_filename).
         and_then (read_to_string E config_filename) (\<lambda>config_text.
         and_then (config_from_str E config_text) (\<lambda>config.
         and_then (tokenizer_from_file E tokenizer_filename) (\<lambda>tk0.
         and_then (unwrap (with_truncation None (with_padding None tk0))) (\<lambda>tk.
         and_then (load_var_builder E use_torch weights_filename dev) (\<lambda>vb.
         and_then (bert_load E vb (apply_gelu_flag approximate_gelu config)) (\<lambda>m.
         Ok \<lparr>model = m, tokenizer = tk, device = dev\<rparr>))))))))"

subsection \<open>Bert::predict\<close>

definition predict :: "'f bert \<Rightarrow> string \<Rightarrow> 'f tensor io" where
  "predict b prompt =
     io_bind (io_lift (and_then (encode (tokenizer b) prompt True) (\<lambda>enc. Ok (enc_ids enc)))) (\<lambda>tokens.
     io_bind (io_lift (and_then (tensor_new tokens (device b)) (unsqueeze 0))) (\<lambda>token_ids.
     io_bind (io_lift (zeros_like token_ids)) (\<lambda>token_type_ids.
     io_bind (println LoadedAndEncoded) (\<lambda>_.
     io_bind (io_lift (bm_forward (model b) token_ids token_type_ids None)) (\<lambda>ys.
     io_bind (println ForwardPassTook) (\<lambda>_.
     io_return ys))))))"

subsection \<open>Contracts of the opaque collaborators\<close>

definition forward_spec :: "'f bert_model \<Rightarrow> bool" where
  "forward_spec m \<longleftrightarrow>
     (\<forall>ids tt n. is_tensor ids \<and> is_tensor tt \<and> shape ids = [1, n] \<and> shape tt = [1, n] \<and> 0 < n \<longrightarrow>
        (if n \<le> max_position_embeddings (bm_config m)
         then (\<exists>ys. bm_forward m ids tt None = Ok ys \<and> is_tensor ys
                    \<and> shape ys = [1, n, hidden_size (bm_config m)])
         else (\<exists>e. bm_forward m ids tt None = Err e)))"

definition loads_config :: "('vb, 'f) hub_env \<Rightarrow> bool" where
  "loads_config E \<longleftrightarrow>
     (\<forall>vb cfg m. bert_load E vb cfg = Ok m \<longrightarrow> bm_config m = cfg \<and> forward_spec m)"

definition never_panics :: "('vb, 'f) hub_env \<Rightarrow> bool" where
  "never_panics E \<longleftrightarrow>
     \<not> is_panic (api_new E)
     \<and> (\<forall>r f. \<not> is_panic (api_get E r f))
     \<and> (\<forall>p. \<not> is_panic (read_to_string E p))
     \<and> (\<forall>s. \<not> is_panic (config_from_str E s))
     \<and> (\<forall>p. \<not> is_panic (tokenizer_from_file E p))
     \<and> (\<forall>p d. \<not> is_panic (vb_from_pth E p d))
     \<and> (\<forall>ps d. \<not> is_panic (vb_from_mmaped_safetensors E ps d))
     \<and> (\<forall>vb c. \<not> is_panic (bert_load E vb c))"

subsection \<open>A concrete instance\<close>

text \<open>
  The default model of the sources, all-MiniLM-L6-v2 (hidden size 384, 512 positions), with
  a toy segmenter (one id per character) and a forward pass that returns zeros of the
  contracted shape. It serves as the concrete input of the witnesses.
\<close>

definition minilm_config :: config where
  "minilm_config = \<lparr>vocab_size = 30522, hidden_size = 384, max_position_embeddings = 512,
                    hidden_act = Gelu\<rparr>"

definition toy_forward :: "config \<Rightarrow> u32 tensor \<Rightarrow> u32 tensor \<Rightarrow> u32 tensor option \<Rightarrow> int tensor outcome" where
  "toy_forward cfg ids tt attention_mask =
     (case shape ids of
        [d, n] \<Rightarrow>
          (if d = 1 \<and> 0 < n \<and> n \<le> max_position_embeddings cfg
           then Ok \<lparr>shape = [1, n, hidden_size cfg], data = replicate (n * hidden_size cfg) 0\<rparr>
           else Err CandleError)
      | _ \<Rightarrow> Err CandleError)"

definition toy_tokenizer :: tokenizer where
  "toy_tokenizer =
     \<lparr>tk_model = (\<lambda>s. Ok (map (\<lambda>c. of_nat (of_char c)) s)),
      tk_prefix = [101], tk_suffix = [102],
      tk_padding = Some \<lparr>pad_strategy = Fixed 128, pad_id = 0\<rparr>,
      tk_truncation = Some \<lparr>max_length = 128, stride = 0\<rparr>\<rparr>"

definition toy_env :: "(unit, int) hub_env" where
  "toy_env =
     \<lparr>api_new = Ok (),
      api_get = (\<lambda>r f. if repo_id r = default_model then Ok f else Err ApiError),
      read_to_string = (\<lambda>p. Ok ''{}''),
      config_from_str = (\<lambda>s. Ok minilm_config),
      tokenizer_from_file = (\<lambda>p. Ok toy_tokenizer),
      vb_from_pth = (\<lambda>p d. Ok ()),
      vb_from_mmaped_safetensors = (\<lambda>ps d. Ok ()),
      bert_load = (\<lambda>vb cfg. Ok \<lparr>bm_config = cfg, bm_forward = toy_forward cfg\<rparr>)\<rparr>"

definition toy_bert :: "int bert" where
  "toy_bert =
     \<lparr>model = \<lparr>bm_config = minilm_config, bm_forward = toy_forward minilm_config\<rparr>,
      tokenizer = toy_tokenizer\<lparr>tk_padding := None, tk_truncation := None\<rparr>,
      device = Cpu\<rparr>"

abbreviation requested_repo :: "string option \<Rightarrow> string option \<Rightarrow> repo" where
  "requested_repo model_id revision \<equiv>
     repo_with_revision (fst (resolve_model_revision model_id revision)) Model
       (snd (resolve_model_revision model_id revision))"

subsection \<open>Lemmas on Bert::new\<close>

lemma resolve_repo_default:
  "fst (resolve_model_revision None r) = default_model"
  by (cases r) simp_all

lemma with_truncation_padding_Ok:
  "with_truncation None (with_padding None tk) = Ok (tk\<lparr>tk_padding := None, tk_truncation := None\<rparr>)"
  by (simp add: with_truncation_def with_padding_def)

lemma bert_new_Ok_E:
  assumes "bert_new E model_id revision use_torch approximate_gelu = Ok b"
  obtains config_f tok_f weights_f config_text cfg tk0 vb where
    "fetch_artifacts E (repo_with_revision (fst (resolve_model_revision model_id revision)) Model
        (snd (resolve_model_revision model_id revision))) use_torch = Ok (config_f, tok_f, weights_f)"
    "read_to_string E config_f = Ok config_text" "config_from_str E config_text = Ok cfg"
    "tokenizer_from_file E tok_f = Ok tk0"
    "load_var_builder E use_torch weights_f Cpu = Ok vb"
    "bert_load E vb (apply_gelu_flag approximate_gelu cfg) = Ok (model b)"
    "tokenizer b = tk0\<lparr>tk_padding := None, tk_truncation := None\<rparr>"
    "device b = Cpu"
  using assms
  by (auto simp: bert_new_def with_truncation_padding_Ok and_then_Ok_iff split: prod.splits)

lemma fetch_artifacts_Ok_iff:
  "fetch_artifacts E repo use_torch = Ok (config_f, tok_f, weights_f) \<longleftrightarrow>
     api_new E = Ok () \<and> api_get E repo ''config.json'' = Ok config_f
     \<and> api_get E repo ''tokenizer.json'' = Ok tok_f \<and> api_get E repo (weights_file use_torch) = Ok weights_f"
  by (auto simp: fetch_artifacts_def and_then_Ok_iff)

subsection \<open>Lemmas on Bert::predict\<close>

lemma predict_encoded:
  assumes "encode (tokenizer b) prompt True = Ok enc"
  shows "predict b prompt out =
           (case bm_forward (model b) \<lparr>shape = [1, length (enc_ids enc)], data = enc_ids enc\<rparr>
                   \<lparr>shape = [1, length (enc_ids enc)], data = replicate (length (enc_ids enc)) 0\<rparr> None of
              Ok ys \<Rightarrow> (Ok ys, out @ [LoadedAndEncoded, ForwardPassTook])
            | Err e \<Rightarrow> (Err e, out @ [LoadedAndEncoded])
            | Panicked e \<Rightarrow> (Panicked e, out @ [LoadedAndEncoded]))"
  using assms
  by (simp add: predict_def io_bind_lift io_bind_println io_bind_return io_return_apply
      unsqueeze0_tensor_new zeros_like_def split: outcome.split)

lemma id_tensors_are_tensors:
  "is_tensor \<lparr>shape = [1, length xs], data = xs\<rparr>"
  "is_tensor \<lparr>shape = [1, n], data = replicate n (0::'a::zero)\<rparr>"
  by (simp_all add: is_tensor_def)

lemma forward_spec_at:
  assumes "forward_spec m" and "0 < length xs"
  shows "if length xs \<le> max_position_embeddings (bm_config m)
         then (\<exists>ys. bm_forward m \<lparr>shape = [1, length xs], data = xs\<rparr>
                      \<lparr>shape = [1, length xs], data = replicate (length xs) 0\<rparr> None = Ok ys
                    \<and> is_tensor ys \<and> shape ys = [1, length xs, hidden_size (bm_config m)])
         else (\<exists>e. bm_forward m \<lparr>shape = [1, length xs], data = xs\<rparr>
                      \<lparr>shape = [1, length xs], data = replicate (length xs) 0\<rparr> None = Err e)"
proof -
  let ?ids = "\<lparr>shape = [1, length xs], data = xs\<rparr>"
  let ?tt = "\<lparr>shape = [1, length xs], data = replicate (length xs) (0::u32)\<rparr>"
  have "is_tensor ?ids \<and> is_tensor ?tt \<and> shape ?ids = [1, length xs] \<and> shape ?tt = [1, length xs]"
    by (simp add: is_tensor_def)
  with assms show ?thesis
    unfolding forward_spec_def by blast
qed


lemma predict_encode_fails:
  "encode (tokenizer b) prompt True = Err e \<Longrightarrow> predict b prompt out = (Err e, out)"
  "encode (tokenizer b) prompt True = Panicked e \<Longrightarrow> predict b prompt out = (Panicked e, out)"
  by (simp_all add: predict_def io_bind_lift)

lemma predict_output:
  "\<exists>new. snd (predict b prompt out) = out @ new \<and> set new \<subseteq> {LoadedAndEncoded, ForwardPassTook}"
proof (cases "encode (tokenizer b) prompt True")
  case (Ok enc)
  show ?thesis
    by (simp add: predict_encoded [OF Ok] split: outcome.split)
next
  case (Err e)
  then show ?thesis by (simp add: predict_encode_fails)
next
  case (Panicked e)
  then show ?thesis by (simp add: predict_encode_fails)
qed

lemma predict_in_bounds:
  assumes "unconfigured (tokenizer b)" and "forward_spec (model b)"
    and "tk_model (tokenizer b) prompt = Ok ids"
    and "0 < added_tokens (tokenizer b) + length ids"
    and "added_tokens (tokenizer b) + length ids \<le> max_position_embeddings (bm_config (model b))"
  shows "\<exists>ys. predict b prompt out = (Ok ys, out @ [LoadedAndEncoded, ForwardPassTook])
              \<and> is_tensor ys
              \<and> shape ys = [1, added_tokens (tokenizer b) + length ids, hidden_size (bm_config (model b))]"
proof -
  let ?toks = "tk_prefix (tokenizer b) @ ids @ tk_suffix (tokenizer b)"
  obtain enc where enc: "encode (tokenizer b) prompt True = Ok enc" and ids: "enc_ids enc = ?toks"
    using encode_unconfigured [OF assms(1,3)] by simp
  have len: "length ?toks = added_tokens (tokenizer b) + length ids"
    by (simp add: added_tokens_def)
  obtain ys where
    fw: "bm_forward (model b) \<lparr>shape = [1, length ?toks], data = ?toks\<rparr>
           \<lparr>shape = [1, length ?toks], data = replicate (length ?toks) 0\<rparr> None = Ok ys"
    and ys: "is_tensor ys" "shape ys = [1, length ?toks, hidden_size (bm_config (model b))]"
  proof -
    have pos: "0 < length ?toks" and le: "length ?toks \<le> max_position_embeddings (bm_config (model b))"
      using assms(4,5) unfolding len by simp_all
    from forward_spec_at [OF assms(2) pos] show ?thesis
      using that by (auto simp only: if_P [OF le])
  qed
  show ?thesis
    using predict_encoded [OF enc, of out] ids fw ys len by simp
qed

lemma toy_forward_spec: "forward_spec \<lparr>bm_config = cfg, bm_forward = toy_forward cfg\<rparr>"
  by (auto simp: forward_spec_def toy_forward_def is_tensor_def)

lemma toy_bert_new:
  "bert_new toy_env None None False False = Ok toy_bert"
  by (simp add: bert_new_def toy_env_def fetch_artifacts_def load_var_builder_def
      with_truncation_padding_Ok apply_gelu_flag_def toy_bert_def repo_with_revision_def)

lemma toy_env_loads_config: "loads_config toy_env"
  by (auto simp: loads_config_def toy_env_def toy_forward_spec)

lemma toy_bert_new_gelu:
  "bert_new toy_env None None False True =
     Ok (toy_bert\<lparr>model := \<lparr>bm_config = minilm_config\<lparr>hidden_act := GeluApproximate\<rparr>,
                             bm_forward = toy_forward (minilm_config\<lparr>hidden_act := GeluApproximate\<rparr>)\<rparr>\<rparr>)"
  by (simp add: bert_new_def toy_env_def fetch_artifacts_def load_var_builder_def
      with_truncation_padding_Ok apply_gelu_flag_def toy_bert_def repo_with_revision_def)

lemma toy_env_never_panics: "never_panics toy_env"
  by (simp add: never_panics_def toy_env_def)

subsection \<open>Properties of Bert::predict\<close>

text \<open>
  C17. For a tokenizer without padding and truncation (the state \<open>Bert::new\<close> leaves it
  in) and an encoder that meets its contract, \<open>predict\<close> on a text whose token count
  \<open>n\<close> (the segmented ids plus the special tokens) lies in \<open>1..max_position_embeddings\<close>
  returns an embedding tensor of shape \<open>[1, n, hidden_size]\<close>, and prints both of its
  lines, in order.
\<close>

theorem predict_shape:
  assumes "unconfigured (tokenizer b)" and "forward_spec (model b)"
    and "tk_model (tokenizer b) prompt = Ok ids"
    and "0 < added_tokens (tokenizer b) + length ids"
    and "added_tokens (tokenizer b) + length ids \<le> max_position_embeddings (bm_config (model b))"
  shows "\<exists>ys. predict b prompt out = (Ok ys, out @ [LoadedAndEncoded, ForwardPassTook])
              \<and> is_tensor ys
              \<and> shape ys = [1, added_tokens (tokenizer b) + length ids, hidden_size (bm_config (model b))]"
  using assms by (rule predict_in_bounds)

theorem predict_shape_witness:
  "\<exists>ys. predict toy_bert ''Hello'' [] = (Ok ys, [LoadedAndEncoded, ForwardPassTook])
        \<and> is_tensor ys \<and> shape ys = [1, 7, 384]"
proof -
  let ?ids = "map (\<lambda>c. of_nat (of_char c)) ''Hello'' :: u32 list"
  have h1: "unconfigured (tokenizer toy_bert)"
    by (simp add: toy_bert_def unconfigured_def)
  have h2: "forward_spec (model toy_bert)"
    by (simp add: toy_bert_def toy_forward_spec)
  have h3: "tk_model (tokenizer toy_bert) ''Hello'' = Ok ?ids"
    by (simp add: toy_bert_def toy_tokenizer_def)
  have h4: "0 < added_tokens (tokenizer toy_bert) + length ?ids"
    by (simp add: toy_bert_def toy_tokenizer_def added_tokens_def)
  have h5: "added_tokens (tokenizer toy_bert) + length ?ids
              \<le> max_position_embeddings (bm_config (model toy_bert))"
    by (simp add: toy_bert_def toy_tokenizer_def added_tokens_def minilm_config_def)
  have n: "added_tokens (tokenizer toy_bert) + length ?ids = 7"
    by (simp add: toy_bert_def toy_tokenizer_def added_tokens_def)
  have h: "hidden_size (bm_config (model toy_bert)) = 384"
    by (simp add: toy_bert_def minilm_config_def)
  from predict_shape [OF h1 h2 h3 h4 h5, of "[]"] show ?thesis
    by (simp only: n h append_Nil)
qed

text \<open>
  C18. With the tokenizer as \<open>Bert::new\<close> leaves it, \<open>predict\<close> on every branch: a
  segmentation error or panic is returned before anything is printed; otherwise the encoder is
  called exactly once, on the ids \<open>prefix @ ids @ suffix\<close> as a \<open>[1, n]\<close> tensor, on
  all-zero type ids of the same shape and on no attention mask, and its result is returned,
  after one line when it fails and after two when it succeeds.
\<close>

theorem predict_unconfigured:
  assumes "unconfigured (tokenizer b)"
  shows "predict b prompt out =
           (case tk_model (tokenizer b) prompt of
              Ok ids \<Rightarrow>
                (let toks = tk_prefix (tokenizer b) @ ids @ tk_suffix (tokenizer b) in
                 case bm_forward (model b) \<lparr>shape = [1, length toks], data = toks\<rparr>
                        \<lparr>shape = [1, length toks], data = replicate (length toks) 0\<rparr> None of
                   Ok ys \<Rightarrow> (Ok ys, out @ [LoadedAndEncoded, ForwardPassTook])
                 | Err e \<Rightarrow> (Err e, out @ [LoadedAndEncoded])
                 | Panicked e \<Rightarrow> (Panicked e, out @ [LoadedAndEncoded]))
            | Err e \<Rightarrow> (Err e, out)
            | Panicked e \<Rightarrow> (Panicked e, out))"
proof (cases "tk_model (tokenizer b) prompt")
  case (Ok ids)
  obtain enc where enc: "encode (tokenizer b) prompt True = Ok enc"
    and "enc_ids enc = tk_prefix (tokenizer b) @ ids @ tk_suffix (tokenizer b)"
    using encode_unconfigured [OF assms Ok] by simp
  with Ok show ?thesis by (simp add: predict_encoded [OF enc])
next
  case (Err e)
  then show ?thesis by (simp add: encode_error predict_encode_fails)
next
  case (Panicked e)
  then show ?thesis by (simp add: encode_panic predict_encode_fails)
qed

theorem predict_unconfigured_witness:
  "predict toy_bert ''Hi'' [] =
     (Ok \<lparr>shape = [1, 4, 384], data = replicate (4 * 384) 0\<rparr>, [LoadedAndEncoded, ForwardPassTook])"
proof -
  have "unconfigured (tokenizer toy_bert)"
    by (simp add: toy_bert_def unconfigured_def)
  from predict_unconfigured [OF this, of "''Hi''" "[]"] show ?thesis
    by (simp add: toy_bert_def toy_tokenizer_def toy_forward_def minilm_config_def)
qed

text \<open>
  C19. No truncation is configured, so a text whose token count exceeds the encoder's
  \<open>max_position_embeddings\<close> reaches the forward pass, which fails: \<open>predict\<close> returns
  that error after printing only its first line.
\<close>

theorem predict_too_long:
  assumes "unconfigured (tokenizer b)" and "forward_spec (model b)"
    and "tk_model (tokenizer b) prompt = Ok ids"
    and "max_position_embeddings (bm_config (model b)) < added_tokens (tokenizer b) + length ids"
  shows "\<exists>e. predict b prompt out = (Err e, out @ [LoadedAndEncoded])"
proof -
  let ?toks = "tk_prefix (tokenizer b) @ ids @ tk_suffix (tokenizer b)"
  have len: "length ?toks = added_tokens (tokenizer b) + length ids"
    by (simp add: added_tokens_def)
  obtain e where
    "bm_forward (model b) \<lparr>shape = [1, length ?toks], data = ?toks\<rparr>
       \<lparr>shape = [1, length ?toks], data = replicate (length ?toks) 0\<rparr> None = Err e"
  proof -
    have pos: "0 < length ?toks" and gt: "\<not> length ?toks \<le> max_position_embeddings (bm_config (model b))"
      using assms(4) unfolding len by linarith+
    from forward_spec_at [OF assms(2) pos] show ?thesis
      using that by (auto simp only: if_not_P [OF gt])
  qed
  then show ?thesis
    using predict_unconfigured [OF assms(1), of prompt out] assms(3) by (simp add: Let_def)
qed

theorem predict_too_long_witness:
  "\<exists>e. predict toy_bert (replicate 511 (CHR ''a'')) [] = (Err e, [LoadedAndEncoded])"
proof -
  let ?ids = "map (\<lambda>c. of_nat (of_char c)) (replicate 511 (CHR ''a'')) :: u32 list"
  have h1: "unconfigured (tokenizer toy_bert)"
    by (simp add: toy_bert_def unconfigured_def)
  have h2: "forward_spec (model toy_bert)"
    by (simp add: toy_bert_def toy_forward_spec)
  have h3: "tk_model (tokenizer toy_bert) (replicate 511 (CHR ''a'')) = Ok ?ids"
    by (simp add: toy_bert_def toy_tokenizer_def)
  have h4: "max_position_embeddings (bm_config (model toy_bert))
              < added_tokens (tokenizer toy_bert) + length ?ids"
    by (simp add: toy_bert_def toy_tokenizer_def added_tokens_def minilm_config_def)
  from predict_too_long [OF h1 h2 h3 h4, of "[]"] show ?thesis
    by simp
qed

subsection \<open>Properties of Bert::new\<close>

text \<open>
  C20. A successfully constructed \<open>Bert\<close> lives on the CPU and holds the tokenizer loaded
  from the requested repository's \<open>tokenizer.json\<close> with its padding and truncation
  cleared, whatever they were in the file.
\<close>

theorem bert_new_loaded_state:
  assumes "bert_new E model_id revision use_torch approximate_gelu = Ok b"
  shows "\<exists>tok_f tk0. api_get E (requested_repo model_id revision) ''tokenizer.json'' = Ok tok_f
            \<and> tokenizer_from_file E tok_f = Ok tk0
            \<and> tokenizer b = tk0\<lparr>tk_padding := None, tk_truncation := None\<rparr>
            \<and> unconfigured (tokenizer b) \<and> device b = Cpu"
proof -
  obtain config_f tok_f weights_f tk0 where
    "fetch_artifacts E (requested_repo model_id revision) use_torch = Ok (config_f, tok_f, weights_f)"
    "tokenizer_from_file E tok_f = Ok tk0"
    "tokenizer b = tk0\<lparr>tk_padding := None, tk_truncation := None\<rparr>" "device b = Cpu"
    using assms by (rule bert_new_Ok_E)
  then show ?thesis
    by (auto simp: fetch_artifacts_Ok_iff unconfigured_def)
qed

theorem bert_new_loaded_state_witness:
  "\<exists>tok_f tk0. api_get toy_env (requested_repo None None) ''tokenizer.json'' = Ok tok_f
      \<and> tokenizer_from_file toy_env tok_f = Ok tk0
      \<and> tokenizer toy_bert = tk0\<lparr>tk_padding := None, tk_truncation := None\<rparr>
      \<and> unconfigured (tokenizer toy_bert) \<and> device toy_bert = Cpu"
  using bert_new_loaded_state [OF toy_bert_new] .

text \<open>
  C21. The network is built from the configuration parsed from the requested repository's
  \<open>config.json\<close>, with its activation replaced by the approximate GELU exactly when
  \<open>approximate_gelu\<close> is set, and with the weights file the \<open>use_torch\<close> flag selects
  (\<open>pytorch_model.bin\<close> through \<open>from_pth\<close>, otherwise \<open>model.safetensors\<close>
  through the memory-mapped loader).
\<close>

theorem bert_new_config:
  assumes "bert_new E model_id revision use_torch approximate_gelu = Ok b" and "loads_config E"
  shows "\<exists>config_f config_text cfg weights_f vb.
            api_get E (requested_repo model_id revision) ''config.json'' = Ok config_f
          \<and> read_to_string E config_f = Ok config_text \<and> config_from_str E config_text = Ok cfg
          \<and> api_get E (requested_repo model_id revision) (weights_file use_torch) = Ok weights_f
          \<and> (if use_torch then vb_from_pth E weights_f Cpu = Ok vb
             else vb_from_mmaped_safetensors E [weights_f] Cpu = Ok vb)
          \<and> bert_load E vb (apply_gelu_flag approximate_gelu cfg) = Ok (model b)
          \<and> bm_config (model b) = apply_gelu_flag approximate_gelu cfg
          \<and> forward_spec (model b)"
proof -
  obtain config_f tok_f weights_f config_text cfg tk0 vb where
    fetch: "fetch_artifacts E (requested_repo model_id revision) use_torch = Ok (config_f, tok_f, weights_f)"
    and "read_to_string E config_f = Ok config_text" "config_from_str E config_text = Ok cfg"
    and vb: "load_var_builder E use_torch weights_f Cpu = Ok vb"
    and load: "bert_load E vb (apply_gelu_flag approximate_gelu cfg) = Ok (model b)"
    using assms(1) by (rule bert_new_Ok_E)
  moreover have "bm_config (model b) = apply_gelu_flag approximate_gelu cfg \<and> forward_spec (model b)"
    using assms(2) load by (simp add: loads_config_def)
  ultimately show ?thesis
    using fetch vb by (fastforce simp: fetch_artifacts_Ok_iff load_var_builder_def)
qed

theorem bert_new_config_witness:
  "\<exists>config_f config_text cfg weights_f vb.
      api_get toy_env (requested_repo None None) ''config.json'' = Ok config_f
    \<and> read_to_string toy_env config_f = Ok config_text \<and> config_from_str toy_env config_text = Ok cfg
    \<and> api_get toy_env (requested_repo None None) (weights_file False) = Ok weights_f
    \<and> vb_from_mmaped_safetensors toy_env [weights_f] Cpu = Ok vb
    \<and> hidden_act (apply_gelu_flag True cfg) = GeluApproximate
    \<and> hidden_size (apply_gelu_flag True cfg) = 384"
  using bert_new_config [OF toy_bert_new_gelu toy_env_loads_config]
  by (auto simp: apply_gelu_flag_def toy_env_def minilm_config_def)

text \<open>
  C22. Loading fails with the hub's error when an artifact is missing: the three artifacts
  are fetched in the order \<open>config.json\<close>, \<open>tokenizer.json\<close>, weights file, and the
  first one whose fetch fails decides the error; nothing after it is attempted.
\<close>

theorem bert_new_first_failure:
  assumes "api_new E = Ok ()" and "k < length (artifact_names use_torch)"
    and "\<forall>i < k. \<exists>p. api_get E (requested_repo model_id revision) (artifact_names use_torch ! i) = Ok p"
    and "api_get E (requested_repo model_id revision) (artifact_names use_torch ! k) = Err e"
  shows "bert_new E model_id revision use_torch approximate_gelu = Err e"
proof -
  have "fetch_artifacts E (requested_repo model_id revision) use_torch = Err e"
  proof -
    have "k = 0 \<or> k = 1 \<or> k = 2"
      using assms(2) by (auto simp: artifact_names_def)
    then show ?thesis
    proof (elim disjE)
      assume "k = 0"
      with assms(1,4) show ?thesis by (simp add: fetch_artifacts_def artifact_names_def)
    next
      assume "k = 1"
      with assms(1,3,4) show ?thesis
        by (auto simp: fetch_artifacts_def artifact_names_def)
    next
      assume k: "k = 2"
      obtain p0 where "api_get E (requested_repo model_id revision) ''config.json'' = Ok p0"
        using assms(3) [rule_format, of 0] k by (auto simp: artifact_names_def)
      moreover obtain p1 where "api_get E (requested_repo model_id revision) ''tokenizer.json'' = Ok p1"
        using assms(3) [rule_format, of 1] k by (auto simp: artifact_names_def)
      ultimately show ?thesis
        using assms(1,4) k by (simp add: fetch_artifacts_def artifact_names_def)
    qed
  qed
  moreover obtain m r where "resolve_model_revision model_id revision = (m, r)"
    by fastforce
  ultimately show ?thesis
    by (simp add: bert_new_def)
qed

theorem bert_new_first_failure_witness:
  "bert_new toy_env (Some ''no-such/model'') None False False = Err ApiError"
proof (rule bert_new_first_failure [where k = 0])
  show "api_new toy_env = Ok ()" by (simp add: toy_env_def)
  show "0 < length (artifact_names False)" by (simp add: artifact_names_def)
  show "\<forall>i < 0. \<exists>p. api_get toy_env (requested_repo (Some ''no-such/model'') None)
                     (artifact_names False ! i) = Ok p" by simp
  show "api_get toy_env (requested_repo (Some ''no-such/model'') None) (artifact_names False ! 0) = Err ApiError"
    by (simp add: toy_env_def repo_with_revision_def default_model_def)
qed

text \<open>
  C23. \<open>Bert::new\<close> never panics of its own: the \<open>unwrap\<close> at line 67 is applied to
  \<open>with_truncation(None)\<close>, which always succeeds, so as long as no collaborator panics,
  every failure of construction is an \<open>Err\<close> the caller can handle.
\<close>

theorem bert_new_no_panic:
  assumes "never_panics E"
  shows "\<not> is_panic (bert_new E model_id revision use_torch approximate_gelu)"
proof
  assume "is_panic (bert_new E model_id revision use_torch approximate_gelu)"
  then obtain e where "bert_new E model_id revision use_torch approximate_gelu = Panicked e"
    by (auto simp: is_panic_iff)
  with assms show False
    by (auto simp: bert_new_def never_panics_def is_panic_iff fetch_artifacts_def
        load_var_builder_def with_truncation_padding_Ok and_then_Panicked_iff Let_def
        split: prod.splits if_splits)
qed

theorem bert_new_no_panic_witness:
  "\<not> is_panic (bert_new toy_env (Some ''no-such/model'') (Some ''v1'') True True)"
  using bert_new_no_panic [OF toy_env_never_panics] .

end
