(* ===== verification/Header.thy ===== *)
theory Header
  imports Prelude
begin

text \<open>
  The request-size logging of \<open>middleware_time_elapsed\<close> (src/src/main.rs lines 50--55):
  \<^verbatim>\<open>req.headers().get("content-length").and_then(|v| v.to_str().ok())
      .and_then(|v| v.parse::<usize>().ok()).unwrap_or(0)\<close>
  \<^item> a header map is an association list from lower-case names to byte strings;
    \<open>HeaderMap::get\<close> returns the first value of a name (\<open>map_of\<close>);
  \<^item> \<open>HeaderValue::to_str\<close> succeeds exactly on visible ASCII (and tab);
  \<^item> \<open>usize::from_str\<close> is Rust's \<open>from_str_radix\<close> for an unsigned 64-bit type:
    an empty string is \<open>Empty\<close>, a lone sign is \<open>InvalidDigit\<close>, a leading \<open>+\<close> is
    skipped; strings of at most 16 digits take the fast path that multiplies and adds
    without overflow checks (\<open>can_not_overflow\<close>), longer ones the checked path, whose
    \<open>checked_mul\<close> and \<open>checked_add\<close> turn an overflow into \<open>PosOverflow\<close>.
    \<open>char::to_digit(10)\<close> computes \<open>c as u32 - '0'\<close> with wrap-around and accepts
    values below 10.
  The decimal reading \<open>dec_value\<close> (unbounded, on \<open>nat\<close>) is the specification of the
  parse, and \<open>dec_digits\<close> the decimal printing of \<open>Display for usize\<close> that clients
  use to write the header.
\<close>

datatype int_error_kind = Empty | InvalidDigit | PosOverflow

type_synonym header_map = "(string \<times> byte list) list"

definition is_visible_ascii :: "byte \<Rightarrow> bool" where
  "is_visible_ascii b \<longleftrightarrow> b = 9 \<or> (32 \<le> b \<and> b < 127)"

definition header_to_str :: "byte list \<Rightarrow> byte list option" where
  "header_to_str v = (if list_all is_visible_ascii v then Some v else None)"

definition is_digit :: "byte \<Rightarrow> bool" where
  "is_digit c \<longleftrightarrow> 48 \<le> c \<and> c \<le> 57"

definition to_digit :: "byte \<Rightarrow> usize option" where
  "to_digit c = (let d = (ucast c :: u32) - 48 in if d < 10 then Some (ucast d) else None)"

definition can_not_overflow :: "nat \<Rightarrow> bool" where
  "can_not_overflow len \<longleftrightarrow> len \<le> 8 * 2"

fun parse_unchecked :: "byte list \<Rightarrow> usize \<Rightarrow> int_error_kind + usize" where
  "parse_unchecked [] result = Inr result"
| "parse_unchecked (c # rest) result =
     (let result = result * 10 in
      case to_digit c of
        None \<Rightarrow> Inl InvalidDigit
      | Some x \<Rightarrow> parse_unchecked rest (result + x))"

fun parse_checked :: "byte list \<Rightarrow> usize \<Rightarrow> int_error_kind + usize" where
  "parse_checked [] result = Inr result"
| "parse_checked (c # rest) result =
     (let mul = checked_mul result 10 in
      case to_digit c of
        None \<Rightarrow> Inl InvalidDigit
      | Some x \<Rightarrow>
          (case mul of
             None \<Rightarrow> Inl PosOverflow
           | Some m \<Rightarrow>
               (case checked_add m x of
                  None \<Rightarrow> Inl PosOverflow
                | Some r \<Rightarrow> parse_checked rest r)))"

definition parse_digits :: "byte list \<Rightarrow> int_error_kind + usize" where
  "parse_digits digits =
     (if can_not_overflow (length digits) then parse_unchecked digits 0 else parse_checked digits 0)"

definition usize_from_str :: "byte list \<Rightarrow> int_error_kind + usize" where
  "usize_from_str src =
     (case src of
        [] \<Rightarrow> Inl Empty
      | [c] \<Rightarrow> (if c = 43 \<or> c = 45 then Inl InvalidDigit else parse_digits src)
      | c # rest \<Rightarrow> (if c = 43 then parse_digits rest else parse_digits src))"

definition result_ok :: "'e + 'a \<Rightarrow> 'a option" where
  "result_ok r = (case r of Inl _ \<Rightarrow> None | Inr x \<Rightarrow> Some x)"

definition payload_size :: "header_map \<Rightarrow> usize" where
  "payload_size headers =
     (case Option.bind (Option.bind (map_of headers ''content-length'') header_to_str)
             (\<lambda>v. result_ok (usize_from_str v)) of
        None \<Rightarrow> 0
      | Some n \<Rightarrow> n)"

fun dec_from :: "nat \<Rightarrow> byte list \<Rightarrow> nat" where
  "dec_from v [] = v"
| "dec_from v (c # cs) = dec_from (10 * v + (unat c - 48)) cs"

definition dec_value :: "byte list \<Rightarrow> nat" where
  "dec_value ds = dec_from 0 ds"

fun dec_digits :: "nat \<Rightarrow> byte list" where
  "dec_digits n =
     (if n < 10 then [of_nat (n + 48)] else dec_digits (n div 10) @ [of_nat (n mod 10 + 48)])"

definition usize_to_string :: "usize \<Rightarrow> byte list" where
  "usize_to_string n = dec_digits (unat n)"

definition ascii_bytes :: "string \<Rightarrow> byte list" where
  "ascii_bytes s = map (\<lambda>c. of_nat (of_char c)) s"

subsection \<open>Digits and the two accumulation loops\<close>

lemma unat_ucast_u32: "unat (ucast c :: u32) = unat (c :: byte)"
proof -
  have "unat c < 2 ^ 8" using unsigned_less [of c] by simp
  then have "unat c < 2 ^ 32" by simp
  then show ?thesis by (simp add: unsigned_ucast_eq take_bit_nat_eq_self_iff)
qed

lemma unat_ucast_usize: "unat (ucast d :: usize) = unat (d :: u32)"
proof -
  have "unat d < 2 ^ 32" using unsigned_less [of d] by simp
  then have "unat d < 2 ^ 64" by simp
  then show ?thesis by (simp add: unsigned_ucast_eq take_bit_nat_eq_self_iff)
qed

lemma is_digit_unat: "is_digit c \<longleftrightarrow> 48 \<le> unat c \<and> unat c \<le> 57"
  by (simp add: is_digit_def word_le_nat_alt)

lemma to_digit_eq:
  "to_digit c = (if is_digit c then Some (of_nat (unat c - 48)) else None)"
proof -
  define d where "d = (ucast c :: u32) - 48"
  have cd: "(ucast c :: u32) = d + 48" by (simp add: d_def)
  show ?thesis
  proof (cases "d < 10")
    case True
    then have small: "unat d < 10" by (simp add: word_less_nat_alt)
    have "unat (d + 48) = unat d + unat (48::u32)"
      by (rule unat_add_lem [THEN iffD1]) (use small in simp)
    then have "unat (d + 48) = unat d + 48" by simp
    then have c: "unat c = unat d + 48" using cd unat_ucast_u32 [of c] by simp
    then have "is_digit c" using small by (simp add: is_digit_unat)
    moreover have "(ucast d :: usize) = of_nat (unat c - 48)"
      using c by (simp add: word_unat_eq_iff unat_ucast_usize unat_of_nat take_bit_nat_eq_self_iff)
    ultimately show ?thesis using True by (simp add: to_digit_def d_def [symmetric])
  next
    case False
    have "\<not> is_digit c"
    proof
      assume dig: "is_digit c"
      then have "(48::u32) \<le> ucast c" by (simp add: is_digit_unat word_le_nat_alt unat_ucast_u32)
      then have "unat d = unat c - 48" by (simp add: d_def unat_sub unat_ucast_u32)
      with dig have "d < 10" by (simp add: is_digit_unat word_less_nat_alt, linarith)
      with False show False by simp
    qed
    with False show ?thesis by (simp add: to_digit_def d_def [symmetric])
  qed
qed

lemma to_digit_Some:
  "is_digit c \<Longrightarrow> to_digit c = Some x \<Longrightarrow> unat x = unat c - 48"
  by (auto simp: to_digit_eq is_digit_unat unat_of_nat take_bit_nat_eq_self_iff simp del: of_nat_diff)

lemma digit_step:
  assumes "is_digit c"
  obtains x where "to_digit c = Some x" "unat x = unat c - 48" "unat x \<le> 9"
proof
  show dx: "to_digit c = Some (of_nat (unat c - 48))" using assms by (simp add: to_digit_eq)
  show ux: "unat (of_nat (unat c - 48) :: usize) = unat c - 48" using assms dx by (rule to_digit_Some)
  show "unat (of_nat (unat c - 48) :: usize) \<le> 9" using assms ux by (simp add: is_digit_unat, linarith)
qed

lemma dec_from_ge: "v \<le> dec_from v ds"
proof (induction ds arbitrary: v)
  case Nil
  then show ?case by simp
next
  case (Cons c cs)
  have "v \<le> 10 * v + (unat c - 48)" by simp
  also have "\<dots> \<le> dec_from (10 * v + (unat c - 48)) cs" by (rule Cons.IH)
  finally show ?case by simp
qed

lemma step_bound:
  fixes a d k :: nat
  assumes "d \<le> 9"
  shows "(10 * a + d + 1) * 10 ^ k \<le> (a + 1) * 10 ^ Suc k"
proof -
  have "10 * a + d + 1 \<le> (a + 1) * 10" using assms by simp
  then have "(10 * a + d + 1) * 10 ^ k \<le> ((a + 1) * 10) * 10 ^ k" by (rule mult_le_mono1)
  also have "((a + 1) * 10) * 10 ^ k = (a + 1) * 10 ^ Suc k" by (simp add: algebra_simps)
  finally show ?thesis .
qed

lemma dec_from_bound:
  "list_all is_digit ds \<Longrightarrow> dec_from v ds < (v + 1) * 10 ^ length ds"
proof (induction ds arbitrary: v)
  case Nil
  then show ?case by simp
next
  case (Cons c cs)
  then have d: "unat c - 48 < 10" by (simp add: is_digit_unat, linarith)
  have "dec_from v (c # cs) = dec_from (10 * v + (unat c - 48)) cs" by simp
  also have "\<dots> < (10 * v + (unat c - 48) + 1) * 10 ^ length cs"
    using Cons by simp
  also have "\<dots> \<le> (v + 1) * 10 ^ length (c # cs)"
    using step_bound [of "unat c - 48" v "length cs"] d by simp
  finally show ?case .
qed

lemma bound_drop_power: "(n + 1) * 10 ^ k \<le> (B::nat) \<Longrightarrow> n < B"
proof -
  assume a: "(n + 1) * 10 ^ k \<le> B"
  have "(n + 1) * 1 \<le> (n + 1) * 10 ^ k" by (intro mult_le_mono2) simp
  with a show ?thesis by simp
qed

lemma word_step_facts:
  fixes acc x :: usize
  assumes "unat acc * 10 + unat x < 2 ^ 64"
  shows "unat (acc * 10) = unat acc * 10" and "unat (acc * 10 + x) = unat acc * 10 + unat x"
proof -
  have "unat (acc * 10) = unat acc * unat (10::usize)"
    by (rule unat_mult_lem [THEN iffD1]) (use assms in simp)
  then show m: "unat (acc * 10) = unat acc * 10" by simp
  have "unat (acc * 10 + x) = unat (acc * 10) + unat x"
    by (rule unat_add_lem [THEN iffD1]) (use assms m in simp)
  with m show "unat (acc * 10 + x) = unat acc * 10 + unat x" by simp
qed

lemma small_digit_step:
  assumes "(unat acc + 1) * 10 ^ length (c # cs) \<le> 2 ^ 64" and "is_digit c"
  obtains x :: usize where "to_digit c = Some x" and "unat (acc * 10 + x) = 10 * unat acc + (unat c - 48)"
    and "(unat (acc * 10 + x) + 1) * 10 ^ length cs \<le> 2 ^ 64" and "unat acc * 10 + unat x < 2 ^ 64"
proof -
  obtain x where dx: "to_digit c = Some x" and ux: "unat x = unat c - 48" and x9: "unat x \<le> 9"
    using assms(2) by (rule digit_step)
  have "(10 * unat acc + unat x + 1) * 10 ^ length cs \<le> (unat acc + 1) * 10 ^ length (c # cs)"
    using step_bound [OF x9] by simp
  with assms(1) have b: "(10 * unat acc + unat x + 1) * 10 ^ length cs \<le> 2 ^ 64" by linarith
  have ok: "unat acc * 10 + unat x < 2 ^ 64"
    using bound_drop_power [OF b] by simp
  note w = word_step_facts [OF ok]
  show ?thesis
    by (rule that [OF dx]) (use b ok w ux in \<open>simp_all add: mult.commute\<close>)
qed

lemma parse_checked_Inr:
  "parse_checked ds acc = Inr n \<longleftrightarrow>
     list_all is_digit ds \<and> dec_from (unat acc) ds < 2 ^ 64 \<and> n = of_nat (dec_from (unat acc) ds)"
proof (induction ds arbitrary: acc)
  case Nil
  then show ?case using unsigned_less [of acc] by auto
next
  case (Cons c cs)
  show ?case
  proof (cases "is_digit c")
    case False
    then show ?thesis by (simp add: to_digit_eq)
  next
    case True
    then obtain x where dx: "to_digit c = Some x" and ux: "unat x = unat c - 48"
      by (rule digit_step)
    let ?v = "10 * unat acc + (unat c - 48)"
    have ge: "?v \<le> dec_from (unat acc) (c # cs)" by (simp add: dec_from_ge)
    show ?thesis
    proof (cases "unat acc * 10 + unat x < 2 ^ 64")
      case ok: True
      note w = word_step_facts [OF ok]
      have "parse_checked (c # cs) acc = parse_checked cs (acc * 10 + x)"
        using dx ok w by (simp add: checked_mul_def checked_add_def)
      then show ?thesis
        using Cons.IH [of "acc * 10 + x"] True w ux by (simp add: mult.commute)
    next
      case over: False
      then have "2 ^ 64 \<le> ?v" using ux by simp
      then have "\<not> dec_from (unat acc) (c # cs) < 2 ^ 64" using ge by linarith
      moreover have "parse_checked (c # cs) acc \<noteq> Inr n"
        using over ux dx
        by (auto simp: checked_mul_def checked_add_def unat_mult_lem [THEN iffD1] split: option.splits)
      ultimately show ?thesis by blast
    qed
  qed
qed

lemma parse_checked_overflow:
  "list_all is_digit ds \<Longrightarrow> 2 ^ 64 \<le> dec_from (unat acc) ds \<Longrightarrow> parse_checked ds acc = Inl PosOverflow"
proof (induction ds arbitrary: acc)
  case Nil
  then show ?case using unat_less_len [of acc] by simp
next
  case (Cons c cs)
  have dig: "is_digit c" using Cons.prems by simp
  then obtain x where dx: "to_digit c = Some x" and ux: "unat x = unat c - 48"
    by (rule digit_step)
  show ?case
  proof (cases "unat acc * 10 + unat x < 2 ^ 64")
    case True
    note w = word_step_facts [OF True]
    have "parse_checked (c # cs) acc = parse_checked cs (acc * 10 + x)"
      using dx True w by (simp add: checked_mul_def checked_add_def)
    also have "\<dots> = Inl PosOverflow"
      using Cons.prems w ux by (intro Cons.IH) (simp_all add: mult.commute)
    finally show ?thesis .
  next
    case False
    then show ?thesis
      using dx by (auto simp: checked_mul_def checked_add_def word_step_facts unat_mult_lem [THEN iffD1]
                        split: option.splits)
  qed
qed

lemma parse_small:
  assumes "(unat acc + 1) * 10 ^ length ds \<le> 2 ^ 64"
  shows "parse_checked ds acc =
           (if list_all is_digit ds then Inr (of_nat (dec_from (unat acc) ds)) else Inl InvalidDigit)"
    and "parse_unchecked ds acc =
           (if list_all is_digit ds then Inr (of_nat (dec_from (unat acc) ds)) else Inl InvalidDigit)"
  using assms
proof (induction ds arbitrary: acc)
  case Nil
  { case 1 show ?case by simp }
  { case 2 show ?case by simp }
next
  case (Cons c cs)
  { case 1
    show ?case
    proof (cases "is_digit c")
      case dig: True
      with 1 obtain x where dx: "to_digit c = Some x" and v: "unat (acc * 10 + x) = 10 * unat acc + (unat c - 48)"
        and b: "(unat (acc * 10 + x) + 1) * 10 ^ length cs \<le> 2 ^ 64" and ok: "unat acc * 10 + unat x < 2 ^ 64"
        by (rule small_digit_step)
      have "parse_checked (c # cs) acc = parse_checked cs (acc * 10 + x)"
        using dx ok word_step_facts [OF ok] by (simp add: checked_mul_def checked_add_def)
      then show ?thesis using Cons.IH(1) [OF b] v dig by simp
    qed (simp add: to_digit_eq) }
  { case 2
    show ?case
    proof (cases "is_digit c")
      case dig: True
      with 2 obtain x where dx: "to_digit c = Some x" and v: "unat (acc * 10 + x) = 10 * unat acc + (unat c - 48)"
        and b: "(unat (acc * 10 + x) + 1) * 10 ^ length cs \<le> 2 ^ 64"
        by (rule small_digit_step)
      then show ?thesis using Cons.IH(2) [OF b] dig by simp
    qed (simp add: to_digit_eq) }
qed

lemma dec_value_small:
  "list_all is_digit ds \<Longrightarrow> length ds \<le> 16 \<Longrightarrow> dec_value ds < 2 ^ 64"
proof -
  assume d: "list_all is_digit ds" and l: "length ds \<le> 16"
  have "dec_value ds < (0 + 1) * 10 ^ length ds"
    unfolding dec_value_def using d by (rule dec_from_bound)
  also have "\<dots> \<le> 10 ^ 16"
  proof -
    have "(10::nat) ^ length ds \<le> 10 ^ 16" using l by (intro power_increasing) simp_all
    then show ?thesis by simp
  qed
  finally show ?thesis by simp
qed

lemma parse_digits_Inr:
  "parse_digits ds = Inr n \<longleftrightarrow>
     list_all is_digit ds \<and> dec_value ds < 2 ^ 64 \<and> n = of_nat (dec_value ds)"
proof (cases "can_not_overflow (length ds)")
  case True
  then have "(10::nat) ^ length ds \<le> 10 ^ 16"
    by (intro power_increasing) (simp_all add: can_not_overflow_def)
  then have b: "(unat (0::usize) + 1) * 10 ^ length ds \<le> 2 ^ 64" by simp
  have "length ds \<le> 16" using True by (simp add: can_not_overflow_def)
  with True show ?thesis
    using parse_small(2) [OF b] dec_value_small [of ds]
    by (auto simp: parse_digits_def dec_value_def)
next
  case False
  then show ?thesis
    by (simp add: parse_digits_def parse_checked_Inr dec_value_def)
qed

lemma parse_digits_overflow:
  assumes "list_all is_digit ds" and "2 ^ 64 \<le> dec_value ds"
  shows "parse_digits ds = Inl PosOverflow"
proof -
  have "\<not> length ds \<le> 16" using assms dec_value_small [of ds] by linarith
  then have "\<not> can_not_overflow (length ds)" by (simp add: can_not_overflow_def)
  with assms show ?thesis
    by (simp add: parse_digits_def parse_checked_overflow dec_value_def)
qed

lemma dec_from_append: "dec_from v (xs @ ys) = dec_from (dec_from v xs) ys"
  by (induction xs arbitrary: v) simp_all

lemma digit_byte:
  assumes "k < 10"
  shows "is_digit (of_nat k + 48 :: byte)" and "unat (of_nat k + 48 :: byte) = k + 48"
proof -
  have "(of_nat k + 48 :: byte) = of_nat (k + 48)" by simp
  also have "unat (of_nat (k + 48) :: byte) = k + 48"
    using assms by (subst unat_of_nat) (simp add: take_bit_nat_eq_self_iff)
  finally show u: "unat (of_nat k + 48 :: byte) = k + 48" .
  then show "is_digit (of_nat k + 48 :: byte)"
    using assms by (simp add: is_digit_unat)
qed

lemma dec_digits_correct:
  "dec_digits n \<noteq> [] \<and> list_all is_digit (dec_digits n) \<and> dec_value (dec_digits n) = n"
proof (induction n rule: dec_digits.induct)
  case (1 n)
  show ?case
  proof (cases "n < 10")
    case True
    then show ?thesis by (simp add: dec_value_def digit_byte)
  next
    case False
    then have IH: "list_all is_digit (dec_digits (n div 10)) \<and> dec_value (dec_digits (n div 10)) = n div 10"
      using "1" by simp
    have "dec_value (dec_digits (n div 10) @ [of_nat (n mod 10 + 48)]) = 10 * (n div 10) + n mod 10"
      using IH by (simp add: dec_value_def dec_from_append digit_byte)
    also have "\<dots> = n" by simp
    finally show ?thesis
      using False IH by (simp add: digit_byte)
  qed
qed

lemma digits_visible: "list_all is_digit ds \<Longrightarrow> header_to_str ds = Some ds"
  by (auto simp: header_to_str_def is_visible_ascii_def is_digit_unat word_le_nat_alt
      word_less_nat_alt list_all_iff)

lemma usize_from_str_digits:
  assumes "ds \<noteq> []" and "list_all is_digit ds" and "dec_value ds < 2 ^ 64"
  shows "usize_from_str ds = Inr (of_nat (dec_value ds))"
proof -
  obtain c rest where ds: "ds = c # rest" using assms(1) by (cases ds) auto
  have "c \<noteq> 43" "c \<noteq> 45" using assms(2) ds by (auto simp: is_digit_def)
  moreover have "parse_digits ds = Inr (of_nat (dec_value ds))"
    using assms(2,3) by (simp add: parse_digits_Inr)
  ultimately show ?thesis
    using ds by (cases rest) (simp_all add: usize_from_str_def)
qed

subsection \<open>Properties of the parse\<close>

text \<open>
  C24. The parse refines the decimal reading: \<open>usize::from_str\<close> accepts a string exactly
  when it is a non-empty run of decimal digits, optionally after one \<open>+\<close>, whose value is
  below \<open>2^64\<close>, and then returns that value.
\<close>

theorem usize_from_str_Ok_iff:
  "usize_from_str s = Inr n \<longleftrightarrow>
     (\<exists>ds. (s = ds \<or> s = 43 # ds) \<and> ds \<noteq> [] \<and> list_all is_digit ds
           \<and> dec_value ds < 2 ^ 64 \<and> n = of_nat (dec_value ds))"
proof (cases s)
  case Nil
  then show ?thesis by (simp add: usize_from_str_def)
next
  case (Cons c rest)
  have plus: "\<not> is_digit 43" and minus: "\<not> is_digit 45" by (simp_all add: is_digit_def)
  show ?thesis
  proof (cases rest)
    case Nil
    with Cons plus minus show ?thesis
      by (auto simp: usize_from_str_def parse_digits_Inr)
  next
    case (Cons c' rest')
    with \<open>s = c # rest\<close> plus show ?thesis
      by (auto simp: usize_from_str_def parse_digits_Inr)
  qed
qed

text \<open>
  C25. The fast path is an optimisation only: on strings short enough for
  \<open>can_not_overflow\<close> (at most 16 digits), the unchecked loop returns what the
  checked loop returns, on every input, digits or not.
\<close>

theorem parse_unchecked_eq_checked:
  assumes "can_not_overflow (length ds)"
  shows "parse_unchecked ds 0 = parse_checked ds 0"
proof -
  have "(10::nat) ^ length ds \<le> 10 ^ 16"
    using assms by (intro power_increasing) (simp_all add: can_not_overflow_def)
  then have "(unat (0::usize) + 1) * 10 ^ length ds \<le> 2 ^ 64" by simp
  from parse_small [OF this] show ?thesis by simp
qed

theorem parse_unchecked_eq_checked_witness:
  "parse_unchecked (ascii_bytes ''9007199254740993'') 0 = parse_checked (ascii_bytes ''9007199254740993'') 0"
  by (rule parse_unchecked_eq_checked) (simp add: can_not_overflow_def ascii_bytes_def)

text \<open>
  C26. A decimal content length of \<open>2^64\<close> or more is rejected with \<open>PosOverflow\<close>
  rather than wrapped around: the long input takes the checked path, and its
  \<open>checked_mul\<close> or \<open>checked_add\<close> fails.
\<close>

theorem usize_from_str_overflow:
  assumes "list_all is_digit ds" and "2 ^ 64 \<le> dec_value ds"
  shows "usize_from_str ds = Inl PosOverflow"
proof -
  have long: "\<not> length ds \<le> 16" using assms dec_value_small [of ds] by linarith
  then obtain c c' rest where ds: "ds = c # c' # rest"
    by (cases ds rule: remdups_adj.cases) auto
  have "c \<noteq> 43" using assms(1) ds by (auto simp: is_digit_def)
  with ds parse_digits_overflow [OF assms] show ?thesis
    by (simp add: usize_from_str_def)
qed

theorem usize_from_str_overflow_witness:
  "usize_from_str (ascii_bytes ''18446744073709551616'') = Inl PosOverflow"
  by (rule usize_from_str_overflow) (simp_all add: ascii_bytes_def is_digit_def dec_value_def)

text \<open>
  C27. Round trip: every 64-bit size printed in decimal, as a client writes its
  \<open>Content-Length\<close>, parses back to itself.
\<close>

theorem usize_from_str_roundtrip: "usize_from_str (usize_to_string n) = Inr n"
proof -
  have d: "dec_digits (unat n) \<noteq> []" "list_all is_digit (dec_digits (unat n))"
    and v: "dec_value (dec_digits (unat n)) = unat n"
    using dec_digits_correct [of "unat n"] by simp_all
  have "dec_value (dec_digits (unat n)) < 2 ^ 64"
    using v unat_less_len [of n] by simp
  from usize_from_str_digits [OF d this] v show ?thesis
    by (simp add: usize_to_string_def)
qed

text \<open>
  C28. The middleware logs the declared request size: a \<open>content-length\<close> header holding
  a decimal size yields that size (only a missing or unparsable header yields the
  default 0).
\<close>

theorem payload_size_declared:
  assumes "map_of headers ''content-length'' = Some (usize_to_string n)"
  shows "payload_size headers = n"
proof -
  have d: "dec_digits (unat n) \<noteq> []" "list_all is_digit (dec_digits (unat n))"
    and v: "dec_value (dec_digits (unat n)) = unat n"
    using dec_digits_correct [of "unat n"] by simp_all
  have "dec_value (dec_digits (unat n)) < 2 ^ 64"
    using v unat_less_len [of n] by simp
  from usize_from_str_digits [OF d this] v have "usize_from_str (usize_to_string n) = Inr n"
    by (simp add: usize_to_string_def)
  with assms digits_visible [OF d(2)] show ?thesis
    by (simp add: payload_size_def usize_to_string_def result_ok_def)
qed

theorem payload_size_declared_witness:
  "payload_size [(''host'', ascii_bytes ''localhost''), (''content-length'', usize_to_string 16)] = 16"
  by (rule payload_size_declared) simp

end
