(* ===== verification/Server.thy ===== *)
theory Server
  imports Bert Header
begin

text \<open>
  The request path of src/src/main.rs, one request at a time.
  \<^item> \<open>prompt\<close> and \<open>embeddings\<close> are the JSON bodies \<open>Prompt { text }\<close> and
    \<open>Embeddings { ys }\<close> (their serde encoding is not modelled).
  \<^item> \<open>predict_handler\<close> is the body of the \<open>#[post("/predict")]\<close> handler after it
    holds the read guard: print the prompt, \<open>predict(..).unwrap()\<close>, \<open>to_vec3().unwrap()\<close>,
    answer \<open>Json(Embeddings { ys })\<close>. Both \<open>unwrap\<close>s turn an error into a panic.
  \<^item> \<open>middleware_time_elapsed\<close> prints the declared payload size, runs the inner service,
    prints the elapsed time and passes the inner result on; a panic of the inner service
    unwinds through it before the second line.
  Taking and releasing the read guard is part of the concurrent model (theory Dispatch).
\<close>

record prompt =
  prompt_text :: string

record 'f embeddings =
  ys :: "'f list list list"

definition predict_handler :: "'f bert \<Rightarrow> prompt \<Rightarrow> 'f embeddings io" where
  "predict_handler m p =
     io_bind (println (Predicting (prompt_text p))) (\<lambda>_.
     io_bind (io_unwrap (predict m (prompt_text p))) (\<lambda>t.
     io_bind (io_lift (unwrap (to_vec3 t))) (\<lambda>v.
     io_return \<lparr>ys = v\<rparr>)))"

definition middleware_time_elapsed :: "header_map \<Rightarrow> 'a io \<Rightarrow> 'a io" where
  "middleware_time_elapsed headers next =
     io_bind (println (PayloadSize (payload_size headers))) (\<lambda>_.
     io_bind (io_attempt next) (\<lambda>res.
     io_bind (println RequestTook) (\<lambda>_.
     io_lift res)))"

definition serve_request :: "'f bert \<Rightarrow> header_map \<Rightarrow> prompt \<Rightarrow> 'f embeddings io" where
  "serve_request m headers p = middleware_time_elapsed headers (predict_handler m p)"

definition failing_tokenizer_bert :: "int bert" where
  "failing_tokenizer_bert =
     toy_bert\<lparr>tokenizer := (tokenizer toy_bert)\<lparr>tk_model := (\<lambda>s. Err TokenizerError)\<rparr>\<rparr>"

subsection \<open>Lemmas\<close>

lemma predict_handler_apply:
  "predict_handler m p out =
     (case predict m (prompt_text p) (out @ [Predicting (prompt_text p)]) of
        (Ok t, out') \<Rightarrow> (case to_vec3 t of
                            Ok v \<Rightarrow> (Ok \<lparr>ys = v\<rparr>, out')
                          | Err e \<Rightarrow> (Panicked e, out')
                          | Panicked e \<Rightarrow> (Panicked e, out'))
      | (Err e, out') \<Rightarrow> (Panicked e, out')
      | (Panicked e, out') \<Rightarrow> (Panicked e, out'))"
proof -
  obtain r out' where pr: "predict m (prompt_text p) (out @ [Predicting (prompt_text p)]) = (r, out')"
    by fastforce
  show ?thesis
  proof (cases r)
    case (Ok t)
    with pr show ?thesis
      by (cases "to_vec3 t")
        (simp_all add: predict_handler_def println_def io_bind_def io_unwrap_def io_lift_def
          io_return_def)
  qed (use pr in \<open>simp_all add: predict_handler_def println_def io_bind_def io_unwrap_def\<close>)
qed

lemma middleware_apply:
  "middleware_time_elapsed headers next out =
     (case next (out @ [PayloadSize (payload_size headers)]) of
        (Panicked e, out') \<Rightarrow> (Panicked e, out')
      | (r, out') \<Rightarrow> (r, out' @ [RequestTook]))"
  by (simp add: middleware_time_elapsed_def io_bind_println io_bind_apply io_attempt_def
      io_lift_apply println_apply split: prod.split outcome.split)

lemma serve_request_apply:
  "serve_request m headers p out =
     (case predict m (prompt_text p) (out @ [PayloadSize (payload_size headers), Predicting (prompt_text p)]) of
        (Ok t, out') \<Rightarrow> (case to_vec3 t of
                            Ok v \<Rightarrow> (Ok \<lparr>ys = v\<rparr>, out' @ [RequestTook])
                          | Err e \<Rightarrow> (Panicked e, out')
                          | Panicked e \<Rightarrow> (Panicked e, out'))
      | (Err e, out') \<Rightarrow> (Panicked e, out')
      | (Panicked e, out') \<Rightarrow> (Panicked e, out'))"
  by (simp add: serve_request_def middleware_apply predict_handler_apply
      split: prod.split outcome.split)

subsection \<open>Properties\<close>

text \<open>
  C30. A request whose text fits the model is answered with a JSON array of
  \<open>1 \<times> n \<times> hidden_size\<close> numbers, and the request leaves exactly five lines on
  standard output, in this order: payload size, prompt, encoding done, forward pass done,
  request time.
\<close>

theorem serve_request_success:
  assumes "unconfigured (tokenizer m)" and "forward_spec (model m)"
    and "tk_model (tokenizer m) (prompt_text p) = Ok ids"
    and "0 < added_tokens (tokenizer m) + length ids"
    and "added_tokens (tokenizer m) + length ids \<le> max_position_embeddings (bm_config (model m))"
  shows "\<exists>v. serve_request m headers p out =
              (Ok \<lparr>ys = v\<rparr>, out @ [PayloadSize (payload_size headers), Predicting (prompt_text p),
                                 LoadedAndEncoded, ForwardPassTook, RequestTook])
            \<and> length v = 1
            \<and> (\<forall>r \<in> set v. length r = added_tokens (tokenizer m) + length ids
                 \<and> (\<forall>x \<in> set r. length x = hidden_size (bm_config (model m))))"
proof -
  let ?out = "out @ [PayloadSize (payload_size headers), Predicting (prompt_text p)]"
  let ?n = "added_tokens (tokenizer m) + length ids"
  obtain t where pr: "predict m (prompt_text p) ?out = (Ok t, ?out @ [LoadedAndEncoded, ForwardPassTook])"
    and t: "is_tensor t" "shape t = [1, ?n, hidden_size (bm_config (model m))]"
    using predict_in_bounds [OF assms, of ?out] by blast
  have rows: "to_vec3 t = Ok (map (\<lambda>i. map (\<lambda>j. row_slice (data t)
                 (i * ?n * hidden_size (bm_config (model m)) + j * hidden_size (bm_config (model m))) (hidden_size (bm_config (model m)))) [0..<?n]) [0..<1])"
    by (rule to_vec3_rows [OF t])
  show ?thesis
    using to_vec3_lengths [OF t] by (simp add: serve_request_apply pr rows del: upt_Suc)
qed

theorem serve_request_success_witness:
  "\<exists>v. serve_request toy_bert [] \<lparr>prompt_text = ''Hello''\<rparr> [] =
        (Ok \<lparr>ys = v\<rparr>, [PayloadSize 0, Predicting ''Hello'', LoadedAndEncoded, ForwardPassTook, RequestTook])
      \<and> length v = 1 \<and> (\<forall>r \<in> set v. length r = 7 \<and> (\<forall>x \<in> set r. length x = 384))"
proof -
  let ?ids = "map (\<lambda>c. of_nat (of_char c)) ''Hello'' :: u32 list"
  have h1: "unconfigured (tokenizer toy_bert)"
    by (simp add: toy_bert_def unconfigured_def)
  have h2: "forward_spec (model toy_bert)"
    by (simp add: toy_bert_def toy_forward_spec)
  have h3: "tk_model (tokenizer toy_bert) (prompt_text \<lparr>prompt_text = ''Hello''\<rparr>) = Ok ?ids"
    by (simp add: toy_bert_def toy_tokenizer_def)
  have n: "added_tokens (tokenizer toy_bert) + length ?ids = 7"
    by (simp add: toy_bert_def toy_tokenizer_def added_tokens_def)
  have h4: "0 < added_tokens (tokenizer toy_bert) + length ?ids" by (simp add: n)
  have h5: "added_tokens (tokenizer toy_bert) + length ?ids \<le> max_position_embeddings (bm_config (model toy_bert))"
    using n by (simp add: toy_bert_def minilm_config_def)
  have h: "hidden_size (bm_config (model toy_bert)) = 384"
    by (simp add: toy_bert_def minilm_config_def)
  have ps: "payload_size [] = 0" by (simp add: payload_size_def)
  from serve_request_success [OF h1 h2 h3 h4 h5, of "[]" "[]"] show ?thesis
    by (simp only: n h ps append_Nil prompt.select_convs)
qed

text \<open>
  C31. Contrary to the spec's error policy (a per-request failure becomes an error
  response), an error of \<open>predict\<close> (a tokenization error, an input too long for the
  model, any candle error) makes the handler panic at its \<open>unwrap\<close>: the request gets no
  response at all, and the middleware's closing line is not printed.
\<close>

theorem serve_request_error_panics:
  assumes "fst (predict m (prompt_text p)
             (out @ [PayloadSize (payload_size headers), Predicting (prompt_text p)])) = Err e"
  shows "\<exists>new. serve_request m headers p out =
                 (Panicked e, out @ [PayloadSize (payload_size headers), Predicting (prompt_text p)] @ new)
              \<and> RequestTook \<notin> set new"
proof -
  let ?out = "out @ [PayloadSize (payload_size headers), Predicting (prompt_text p)]"
  obtain new where new: "snd (predict m (prompt_text p) ?out) = ?out @ new"
    and lines: "set new \<subseteq> {LoadedAndEncoded, ForwardPassTook}"
    using predict_output by blast
  have "predict m (prompt_text p) ?out = (Err e, ?out @ new)"
    using assms new by (metis prod.collapse)
  then have "serve_request m headers p out = (Panicked e, ?out @ new)"
    by (simp add: serve_request_apply)
  moreover have "RequestTook \<notin> set new" using lines by blast
  ultimately show ?thesis by auto
qed

theorem serve_request_error_panics_witness:
  "\<exists>new. serve_request failing_tokenizer_bert [] \<lparr>prompt_text = ''Hello''\<rparr> [] =
            (Panicked TokenizerError, [PayloadSize 0, Predicting ''Hello''] @ new)
         \<and> RequestTook \<notin> set new"
proof -
  have "fst (predict failing_tokenizer_bert (prompt_text \<lparr>prompt_text = ''Hello''\<rparr>)
          ([] @ [PayloadSize (payload_size []), Predicting (prompt_text \<lparr>prompt_text = ''Hello''\<rparr>)]))
        = Err TokenizerError"
    by (simp add: predict_def encode_def failing_tokenizer_bert_def io_bind_lift)
  from serve_request_error_panics [OF this] show ?thesis
    by (simp add: payload_size_def)
qed

end
