(* ===== verification/Wire.thy ===== *)
theory Wire
  imports Json_Read Server
begin

text \<open>
  The HTTP wire format of the \<open>/predict\<close> route (src/src/main.rs lines 13--21, 30, 43).
  \<^item> The handler's argument \<open>web::Json<Prompt>\<close> is actix-web's \<open>Json\<close> extractor: it
    requires a \<open>Content-Type\<close> whose subtype is \<open>json\<close> or has the suffix \<open>+json\<close>
    (\<open>ContentType\<close>), refuses a declared \<open>Content-Length\<close> or a body above the default
    limit of 2,097,152 bytes (\<open>OverflowKnownLength\<close>, \<open>Overflow\<close>), and then runs
    \<open>serde_json::from_slice\<close> (\<open>json_extract\<close>).
  \<^item> \<open>from_slice\<close> is \<open>Deserialize::deserialize\<close> followed by \<open>Deserializer::end\<close>,
    which refuses anything but whitespace after the value (\<open>TrailingCharacters\<close>).
  \<^item> \<open>#[derive(Deserialize)] struct Prompt { text: String }\<close> goes through
    \<open>deserialize_struct\<close>: an object is read by the derived \<open>visit_map\<close> (a key
    \<open>text\<close> read as a string, a second one \<open>DuplicateField\<close>, every other key's value
    skipped by \<open>ignore_value\<close>, none \<open>MissingField\<close>) and \<open>end_map\<close>; an array by
    \<open>visit_seq\<close> (its first element is the text, none is \<open>InvalidLength\<close>) and
    \<open>end_seq\<close>; any other value is an \<open>InvalidType\<close> error.
  \<^item> The answer \<open>web::Json(Embeddings { ys })\<close> is written by
    \<open>serde_json::to_string\<close>: \<open>{"ys":[[[..]]]}\<close>, each \<open>f32\<close> by the float formatter
    (a parameter \<open>fmt\<close> of the model, \<open>None\<close> for the non-finite values that serde_json
    writes as \<open>null\<close>).
  A Rust \<open>String\<close> is its UTF-8 bytes; the model's \<open>prompt_text\<close> holds them as
  8-bit characters (\<open>string_of_bytes\<close>). Content-Encoding (compressed bodies) is not
  modelled: the body is the decoded payload.
\<close>

definition text_key :: bytes where
  "text_key = [116, 101, 120, 116]"

function visit_map :: "bytes option \<Rightarrow> bool \<Rightarrow> bytes \<Rightarrow> json_error + (bytes option \<times> bytes)" where
  "visit_map field first bs =
     (case next_key first bs of
        Inl e \<Rightarrow> Inl e
      | Inr (None, r) \<Rightarrow> Inr (field, r)
      | Inr (Some k, r) \<Rightarrow>
          if k = text_key then
            (if field \<noteq> None then Inl DuplicateField
             else
               (case parse_object_colon r of
                  Inl e \<Rightarrow> Inl e
                | Inr r' \<Rightarrow>
                    (case deserialize_string r' of
                       Inl e \<Rightarrow> Inl e
                     | Inr (s, r'') \<Rightarrow> visit_map (Some s) False r'')))
          else
            (case parse_object_colon r of
               Inl e \<Rightarrow> Inl e
             | Inr r' \<Rightarrow>
                 (case ignore_value r' of
                    Inl e \<Rightarrow> Inl e
                  | Inr r'' \<Rightarrow> visit_map field False r'')))"
  by pat_completeness auto
termination
  by (relation "measure (\<lambda>(field, first, bs). length bs)")
    (auto dest!: next_key_shorter parse_object_colon_shorter deserialize_string_shorter
       ignore_value_shorter)

definition string_of_bytes :: "bytes \<Rightarrow> string" where
  "string_of_bytes s = map (\<lambda>b. char_of (unat b)) s"

definition prompt_visit_map :: "bytes \<Rightarrow> json_error + (prompt \<times> bytes)" where
  "prompt_visit_map bs =
     (case visit_map None True bs of
        Inl e \<Rightarrow> Inl e
      | Inr (None, r) \<Rightarrow> Inl MissingField
      | Inr (Some s, r) \<Rightarrow> Inr (\<lparr>prompt_text = string_of_bytes s\<rparr>, r))"

definition prompt_visit_seq :: "bytes \<Rightarrow> json_error + (prompt \<times> bytes)" where
  "prompt_visit_seq bs =
     (case next_element_first bs of
        Inl e \<Rightarrow> Inl e
      | Inr (None, r) \<Rightarrow> Inl InvalidLength
      | Inr (Some s, r) \<Rightarrow> Inr (\<lparr>prompt_text = string_of_bytes s\<rparr>, r))"

definition deserialize_prompt :: "bytes \<Rightarrow> json_error + (prompt \<times> bytes)" where
  "deserialize_prompt bs =
     (case skip_ws bs of
        [] \<Rightarrow> Inl EofWhileParsing
      | c # rest \<Rightarrow>
          if c = 91 then
            (case prompt_visit_seq rest of
               Inl e \<Rightarrow> Inl e
             | Inr (p, r) \<Rightarrow> (case end_seq r of Inl e \<Rightarrow> Inl e | Inr r' \<Rightarrow> Inr (p, r')))
          else if c = 123 then
            (case prompt_visit_map rest of
               Inl e \<Rightarrow> Inl e
             | Inr (p, r) \<Rightarrow> (case end_map r of Inl e \<Rightarrow> Inl e | Inr r' \<Rightarrow> Inr (p, r')))
          else Inl (peek_invalid_type (c # rest)))"

definition from_slice_prompt :: "bytes \<Rightarrow> json_error + prompt" where
  "from_slice_prompt bs =
     (case deserialize_prompt bs of
        Inl e \<Rightarrow> Inl e
      | Inr (p, r) \<Rightarrow> if skip_ws r = [] then Inr p else Inl TrailingCharacters)"

subsection \<open>The extractor\<close>

datatype json_payload_error = OverflowKnownLength | Overflow | ContentType | Deserialize json_error

definition json_limit :: nat where
  "json_limit = 2097152"

definition is_token_byte :: "byte \<Rightarrow> bool" where
  "is_token_byte b \<longleftrightarrow>
     33 \<le> b \<and> b < 127 \<and> b \<notin> set [40, 41, 60, 62, 64, 44, 59, 58, 92, 34, 47, 91, 93, 63, 61, 123, 125]"

definition to_lower :: "byte \<Rightarrow> byte" where
  "to_lower b = (if 65 \<le> b \<and> b \<le> 90 then b + 32 else b)"

definition json_subtype :: bytes where
  "json_subtype = [106, 115, 111, 110]"

definition trim_ws :: "bytes \<Rightarrow> bytes" where
  "trim_ws s = rev (dropWhile is_ws (rev (dropWhile is_ws s)))"

text \<open>
  \<open>mime_is_json\<close> reads the essence of a media type as the \<open>mime\<close> crate does (type and
  subtype are non-empty tokens, compared in lower case, the suffix is what follows the first
  \<open>+\<close> of the subtype) and tests actix's condition
  \<open>mime.subtype() == JSON || mime.suffix() == Some(JSON)\<close>. The parameters after
  \<open>;\<close> are not checked.
\<close>

definition mime_is_json :: "bytes \<Rightarrow> bool" where
  "mime_is_json ct =
     (let ess = map to_lower (trim_ws (takeWhile (\<lambda>b. b \<noteq> 59) ct));
          ty = takeWhile (\<lambda>b. b \<noteq> 47) ess in
      case dropWhile (\<lambda>b. b \<noteq> 47) ess of
        [] \<Rightarrow> False
      | _ # sub \<Rightarrow>
          ty \<noteq> [] \<and> sub \<noteq> [] \<and> list_all is_token_byte ty \<and> list_all is_token_byte sub
          \<and> (sub = json_subtype
             \<or> (case dropWhile (\<lambda>b. b \<noteq> 43) sub of [] \<Rightarrow> False | _ # suf \<Rightarrow> suf = json_subtype)))"

definition content_type_json :: "header_map \<Rightarrow> bool" where
  "content_type_json headers =
     (case Option.bind (map_of headers ''content-type'') header_to_str of
        None \<Rightarrow> False
      | Some v \<Rightarrow> mime_is_json v)"

definition content_length :: "header_map \<Rightarrow> nat option" where
  "content_length headers =
     Option.bind (map_of headers ''content-length'') (\<lambda>v.
       Option.bind (header_to_str v) (\<lambda>s.
         let t = trim_ws s in
         if t \<noteq> [] \<and> hd t = 43 then None else map_option unat (result_ok (usize_from_str t))))"

definition json_extract :: "header_map \<Rightarrow> bytes \<Rightarrow> json_payload_error + prompt" where
  "json_extract headers body =
     (if \<not> content_type_json headers then Inl ContentType
      else if (case content_length headers of Some n \<Rightarrow> json_limit < n | None \<Rightarrow> False)
      then Inl OverflowKnownLength
      else if json_limit < length body then Inl Overflow
      else (case from_slice_prompt body of Inl e \<Rightarrow> Inl (Deserialize e) | Inr p \<Rightarrow> Inr p))"

fun payload_error_status :: "json_payload_error \<Rightarrow> nat" where
  "payload_error_status OverflowKnownLength = 413"
| "payload_error_status Overflow = 413"
| "payload_error_status _ = 400"

subsection \<open>The response\<close>

definition ys_key :: bytes where
  "ys_key = [121, 115]"

definition f32_json :: "('f \<Rightarrow> bytes option) \<Rightarrow> 'f \<Rightarrow> json" where
  "f32_json fmt x = (case fmt x of None \<Rightarrow> JNull | Some t \<Rightarrow> JNum t)"

definition embeddings_json :: "('f \<Rightarrow> bytes option) \<Rightarrow> 'f embeddings \<Rightarrow> json" where
  "embeddings_json fmt e =
     JObj [(ys_key, JArr (map (\<lambda>m. JArr (map (\<lambda>row. JArr (map (f32_json fmt) row)) m)) (ys e)))]"

definition serialize_embeddings :: "('f \<Rightarrow> bytes option) \<Rightarrow> 'f embeddings \<Rightarrow> bytes" where
  "serialize_embeddings fmt e = print_json (embeddings_json fmt e)"

subsection \<open>What the derived visitor means\<close>

text \<open>
  The contract of \<open>#[derive(Deserialize)]\<close> on \<open>Prompt\<close> read from an object, member by
  member: the one member named \<open>text\<close> must be a (UTF-8) string, a second one is an
  error, every other member is ignored.
\<close>

fun fields_text :: "bytes option \<Rightarrow> (bytes \<times> json) list \<Rightarrow> json_error + bytes option" where
  "fields_text f [] = Inr f"
| "fields_text f (kv # kvs) =
     (if fst kv = text_key then
        (if f \<noteq> None then Inl DuplicateField
         else
           (case snd kv of
              JStr s \<Rightarrow> if utf8_valid s then fields_text (Some s) kvs else Inl InvalidUnicode
            | _ \<Rightarrow> Inl InvalidType))
      else fields_text f kvs)"

subsection \<open>Lemmas\<close>

declare visit_map.simps [simp del]

lemma visit_map_member:
  assumes nk: "next_key first bs = Inr (Some k, 58 # print_json v @ X)"
    and ok: "json_ok v" and nd: "num_delim X"
  shows "visit_map field first bs =
           (if k = text_key then
              (if field \<noteq> None then Inl DuplicateField
               else
                 (case v of
                    JStr s \<Rightarrow> if utf8_valid s then visit_map (Some s) False X else Inl InvalidUnicode
                  | _ \<Rightarrow> Inl InvalidType))
            else visit_map field False X)"
proof -
  have colon: "parse_object_colon (58 # print_json v @ X) = Inr (print_json v @ X)"
    by (simp add: parse_object_colon_def is_ws_def)
  have ds: "deserialize_string (print_json v @ X) =
              (case v of JStr s \<Rightarrow> if utf8_valid s then Inr (s, X) else Inl InvalidUnicode
               | _ \<Rightarrow> Inl InvalidType)"
    using ok nd by (rule deserialize_string_print_json)
  have iv: "ignore_value (print_json v @ X) = Inr X"
    using ok nd by (simp add: ignore_value_def ignore_loop_print_json value_done_def)
  show ?thesis
    by (subst visit_map.simps) (simp add: nk colon ds iv split: json.split)
qed

lemma visit_map_members:
  assumes "\<forall>kv \<in> set kvs. json_ok (snd kv) \<and> utf8_valid (fst kv)"
  shows "visit_map field False
           (concat (map (\<lambda>kv. 44 # json_string (fst kv) @ 58 # print_json (snd kv)) kvs) @ 125 # rest)
         = (case fields_text field kvs of Inl e \<Rightarrow> Inl e | Inr f \<Rightarrow> Inr (f, 125 # rest))"
  using assms
proof (induction kvs arbitrary: field)
  case Nil
  show ?case by (subst visit_map.simps) (simp add: next_key_close)
next
  case (Cons kv kvs)
  let ?X = "concat (map (\<lambda>kv. 44 # json_string (fst kv) @ 58 # print_json (snd kv)) kvs) @ 125 # rest"
  have ok: "json_ok (snd kv)" "utf8_valid (fst kv)" using Cons.prems by simp_all
  have nd: "num_delim ?X" by (intro num_delim_sep num_delim_close)
  have nk: "next_key False (44 # json_string (fst kv) @ 58 # print_json (snd kv) @ ?X)
              = Inr (Some (fst kv), 58 # print_json (snd kv) @ ?X)"
    using ok(2) by (simp add: next_key_member key_start_member)
  show ?case
    using visit_map_member [OF nk ok(1) nd, of field] Cons.IH Cons.prems
    by (cases kv) (auto split: json.split)
qed

lemma end_map_close: "end_map (125 # rest) = Inr rest"
  by (simp add: end_map_def is_ws_def)

lemma skip_ws_all_ws: "\<forall>b \<in> set ws. is_ws b \<Longrightarrow> skip_ws ws = []"
  by (simp add: skip_ws_def)

lemma prompt_visit_map_object:
  assumes "\<forall>kv \<in> set kvs. json_ok (snd kv) \<and> utf8_valid (fst kv)"
  shows "prompt_visit_map (tl (print_json (JObj kvs)) @ rest) =
           (case fields_text None kvs of
              Inl e \<Rightarrow> Inl e
            | Inr None \<Rightarrow> Inl MissingField
            | Inr (Some s) \<Rightarrow> Inr (\<lparr>prompt_text = string_of_bytes s\<rparr>, 125 # rest))"
proof (cases kvs)
  case Nil
  then show ?thesis
    by (simp add: prompt_visit_map_def visit_map.simps [of None True] next_key_close)
next
  case (Cons kv kvs')
  let ?X = "concat (map (\<lambda>kv. 44 # json_string (fst kv) @ 58 # print_json (snd kv)) kvs') @ 125 # rest"
  have ok: "json_ok (snd kv)" "utf8_valid (fst kv)" and ok': "\<forall>kv \<in> set kvs'. json_ok (snd kv) \<and> utf8_valid (fst kv)"
    using assms Cons by simp_all
  have nd: "num_delim ?X" by (intro num_delim_sep num_delim_close)
  have nk: "next_key True (json_string (fst kv) @ 58 # print_json (snd kv) @ ?X)
              = Inr (Some (fst kv), 58 # print_json (snd kv) @ ?X)"
    using ok(2) by (simp add: next_key_member key_start_member)
  show ?thesis
    using visit_map_member [OF nk ok(1) nd, of None] visit_map_members [OF ok'] Cons
    by (cases kv) (auto simp: prompt_visit_map_def split: json.split sum.split option.split)
qed

lemma print_json_JObj_hd: "print_json (JObj kvs) = 123 # tl (print_json (JObj kvs))"
  by (cases kvs) simp_all

lemma deserialize_prompt_object:
  assumes "\<forall>kv \<in> set kvs. json_ok (snd kv) \<and> utf8_valid (fst kv)"
  shows "deserialize_prompt (print_json (JObj kvs) @ rest) =
           (case fields_text None kvs of
              Inl e \<Rightarrow> Inl e
            | Inr None \<Rightarrow> Inl MissingField
            | Inr (Some s) \<Rightarrow> Inr (\<lparr>prompt_text = string_of_bytes s\<rparr>, rest))"
proof -
  define T where "T = tl (print_json (JObj kvs))"
  have eq: "print_json (JObj kvs) = 123 # T" unfolding T_def by (rule print_json_JObj_hd)
  have pv: "prompt_visit_map (T @ rest) =
              (case fields_text None kvs of
                 Inl e \<Rightarrow> Inl e
               | Inr None \<Rightarrow> Inl MissingField
               | Inr (Some s) \<Rightarrow> Inr (\<lparr>prompt_text = string_of_bytes s\<rparr>, 125 # rest))"
    unfolding T_def by (rule prompt_visit_map_object [OF assms])
  show ?thesis
    unfolding eq using pv
    by (auto simp: deserialize_prompt_def is_ws_def end_map_close split: sum.split option.split)
qed

lemma embeddings_json_ok:
  "\<forall>x. case fmt x of None \<Rightarrow> True | Some t \<Rightarrow> num_token t \<Longrightarrow> json_ok (embeddings_json fmt e)"
  by (auto simp: embeddings_json_def f32_json_def split: option.splits)

lemma embeddings_json_utf8: "json_utf8 (embeddings_json fmt e)"
  by (auto simp: embeddings_json_def f32_json_def ys_key_def utf8_valid.simps split: option.splits)

lemma parse_str_acc_utf8: "parse_str_acc acc bs = Inr (v, r) \<Longrightarrow> utf8_valid v"
  by (induction acc bs rule: parse_str_acc.induct) (auto split: if_splits sum.splits prod.splits)

lemma deserialize_string_utf8: "deserialize_string bs = Inr (v, r) \<Longrightarrow> utf8_valid v"
  by (auto simp: deserialize_string_def parse_str_def split: list.splits if_splits
           dest: parse_str_acc_utf8)

lemma visit_map_utf8:
  "visit_map field first bs = Inr (Some s, r) \<Longrightarrow> (\<forall>s0. field = Some s0 \<longrightarrow> utf8_valid s0) \<Longrightarrow>
     utf8_valid s"
proof (induction field first bs rule: visit_map.induct)
  case (1 field first bs)
  note h = "1.prems"(1) [unfolded visit_map.simps [of field first bs]]
  show ?case
    using h "1.IH" "1.prems"(2)
    by (fastforce split: sum.splits option.splits if_splits prod.splits dest: deserialize_string_utf8)
qed

lemma from_slice_prompt_utf8:
  "from_slice_prompt bs = Inr p \<Longrightarrow> \<exists>s. utf8_valid s \<and> prompt_text p = string_of_bytes s"
  by (auto simp: from_slice_prompt_def deserialize_prompt_def prompt_visit_map_def prompt_visit_seq_def
        next_element_first_def split: sum.splits list.splits if_splits option.splits prod.splits
        dest: visit_map_utf8 deserialize_string_utf8)

lemma content_type_application_json:
  "content_type_json [(''content-type'', [97, 47, 106, 115, 111, 110])]"
  by (simp add: content_type_json_def header_to_str_def is_visible_ascii_def mime_is_json_def
      trim_ws_def is_ws_def to_lower_def is_token_byte_def json_subtype_def)

subsection \<open>Properties\<close>

text \<open>
  C32 (refinement). The derived \<open>Deserialize\<close> for \<open>Prompt\<close>, run by
  \<open>serde_json::from_slice\<close> on any object the writer prints (whose keys are UTF-8),
  followed by whitespace, implements the field contract \<open>fields_text\<close>: the prompt is the
  one string member named \<open>text\<close>, every other member is ignored, a repeated \<open>text\<close>
  is \<open>DuplicateField\<close> and a missing one \<open>MissingField\<close>.
\<close>

theorem from_slice_prompt_object:
  assumes "json_ok (JObj kvs)" and "\<forall>kv \<in> set kvs. utf8_valid (fst kv)"
    and "\<forall>b \<in> set ws. is_ws b"
  shows "from_slice_prompt (print_json (JObj kvs) @ ws) =
           (case fields_text None kvs of
              Inl e \<Rightarrow> Inl e
            | Inr None \<Rightarrow> Inl MissingField
            | Inr (Some s) \<Rightarrow> Inr \<lparr>prompt_text = string_of_bytes s\<rparr>)"
proof -
  have kv: "\<forall>kv \<in> set kvs. json_ok (snd kv) \<and> utf8_valid (fst kv)" using assms(1,2) by simp
  show ?thesis
    using deserialize_prompt_object [OF kv, of ws] skip_ws_all_ws [OF assms(3)]
    by (auto simp: from_slice_prompt_def split: sum.split option.split)
qed

lemma from_slice_prompt_object_witness:
  "from_slice_prompt (print_json (JObj [([97], JNum [49]), (text_key, JStr [104, 105])]) @ [10])
     = Inr \<lparr>prompt_text = string_of_bytes [104, 105]\<rparr>"
  using from_slice_prompt_object [of "[([97], JNum [49]), (text_key, JStr [104, 105])]" "[10]"]
  by (simp add: num_token_def ignore_scalar_def ignore_integer_def ignore_frac_exp_def is_dig_def
        text_key_def is_ws_def)

text \<open>
  C38 (functional). The derived \<open>Deserialize\<close> also reads a \<open>Prompt\<close> from a JSON
  array whose one element is the text (\<open>visit_seq\<close>): \<open>["hello"]\<close> is accepted
  like \<open>{"text":"hello"}\<close>.
\<close>

theorem prompt_array_form:
  "utf8_valid s \<Longrightarrow> from_slice_prompt (91 # json_string s @ [93]) = Inr \<lparr>prompt_text = string_of_bytes s\<rparr>"
  by (simp add: from_slice_prompt_def deserialize_prompt_def prompt_visit_seq_def next_element_first_def
      deserialize_string_def json_string_def is_ws_def parse_str_def parse_str_acc_json_escape
      end_seq_def)

lemma prompt_array_form_witness:
  "utf8_valid [104, 105]
   \<and> from_slice_prompt (91 # json_string [104, 105] @ [93]) = Inr \<lparr>prompt_text = string_of_bytes [104, 105]\<rparr>"
  using prompt_array_form [of "[104, 105]"] by simp

text \<open>
  C36 (safety). A prompt reaches the handler only from a body declared as JSON, no longer
  than the extractor's limit, that \<open>serde_json::from_slice\<close> reads as that prompt; and
  its text is always a valid UTF-8 byte string (the invariant of Rust's \<open>String\<close>, the
  spec's UTF-8 textual field).
\<close>

theorem json_extract_ok:
  "json_extract h body = Inr p \<Longrightarrow>
     content_type_json h \<and> length body \<le> json_limit \<and> from_slice_prompt body = Inr p
     \<and> (\<exists>s. utf8_valid s \<and> prompt_text p = string_of_bytes s)"
  by (auto simp: json_extract_def split: if_splits sum.splits dest: from_slice_prompt_utf8)

lemma json_extract_ok_witness:
  "json_extract [(''content-type'', [97, 47, 106, 115, 111, 110])] (91 # json_string [104] @ [93])
     = Inr \<lparr>prompt_text = string_of_bytes [104]\<rparr>
   \<and> from_slice_prompt (91 # json_string [104] @ [93]) = Inr \<lparr>prompt_text = string_of_bytes [104]\<rparr>
   \<and> (\<exists>s. utf8_valid s \<and> string_of_bytes [104] = string_of_bytes s)"
proof -
  note ct = content_type_application_json
  have "json_extract [(''content-type'', [97, 47, 106, 115, 111, 110])] (91 # json_string [104] @ [93])
          = Inr \<lparr>prompt_text = string_of_bytes [104]\<rparr>"
    using ct
    by (simp add: json_extract_def content_length_def json_limit_def json_string_def json_escape_def
        escape_out_def from_slice_prompt_def deserialize_prompt_def prompt_visit_seq_def
        next_element_first_def deserialize_string_def is_ws_def parse_str_def end_seq_def
        utf8_valid.simps)
  then show ?thesis using json_extract_ok by fastforce
qed

text \<open>
  C37 (error). For a request declared as JSON whose declared length, if any, is within the
  limit, the extractor answers 413 exactly when the body is longer than 2,097,152 bytes,
  whatever it holds, although the prompt is specified as text of arbitrary length.
\<close>

theorem json_extract_overflow:
  "content_type_json h \<Longrightarrow> (case content_length h of None \<Rightarrow> True | Some n \<Rightarrow> n \<le> json_limit) \<Longrightarrow>
     (\<exists>e. json_extract h body = Inl e \<and> payload_error_status e = 413) \<longleftrightarrow> json_limit < length body"
  by (auto simp: json_extract_def split: option.splits sum.splits)

lemma json_extract_overflow_witness:
  "(\<exists>e. json_extract [(''content-type'', [97, 47, 106, 115, 111, 110])] (replicate 2097153 32) = Inl e
        \<and> payload_error_status e = 413)
   \<and> \<not> (\<exists>e. json_extract [(''content-type'', [97, 47, 106, 115, 111, 110])] (replicate 2097152 32) = Inl e
        \<and> payload_error_status e = 413)"
proof -
  note ct = content_type_application_json
  have cl: "content_length [(''content-type'', [97, 47, 106, 115, 111, 110])] = None"
    by (simp add: content_length_def)
  show ?thesis
    using json_extract_overflow [OF ct, of "replicate 2097153 32"]
      json_extract_overflow [OF ct, of "replicate 2097152 32"] cl
    by (simp add: json_limit_def)
qed

text \<open>
  C35 (round trip). The answer the handler returns, \<open>Json(Embeddings { ys })\<close> written by
  serde_json, is read by a client as the object with the single member \<open>"ys"\<close> whose
  value is the three-level array of the embeddings, row by row, each float as the number
  token the float formatter writes (non-finite values are written as \<open>null\<close>), and
  nothing after it.
\<close>

theorem serialize_embeddings_json:
  "\<forall>x. case fmt x of None \<Rightarrow> True | Some t \<Rightarrow> num_token t \<Longrightarrow>
     read_json (serialize_embeddings fmt e) =
       Inr (JObj [([121, 115],
                   JArr (map (\<lambda>m. JArr (map (\<lambda>row. JArr (map (\<lambda>x. case fmt x of None \<Rightarrow> JNull
                                                                    | Some t \<Rightarrow> JNum t) row)) m))
                          (ys e)))])"
proof -
  assume fmt: "\<forall>x. case fmt x of None \<Rightarrow> True | Some t \<Rightarrow> num_token t"
  obtain n where "read_value n (print_json (embeddings_json fmt e) @ [])
                    = Some (Inr (embeddings_json fmt e, []))"
    using read_value_print_json [OF embeddings_json_ok [OF fmt, where e = e] embeddings_json_utf8 [where e = e],
        where rest = "[]"]
    by (auto simp: num_delim_def)
  then have "read_json (serialize_embeddings fmt e) = Inr (embeddings_json fmt e)"
    by (auto simp: serialize_embeddings_def intro: read_json_read_value)
  then show ?thesis by (simp add: embeddings_json_def f32_json_def ys_key_def)
qed

lemma serialize_embeddings_json_witness:
  "(\<forall>x. case (\<lambda>x::int. if x = 0 then None else Some [49]) x of None \<Rightarrow> True | Some t \<Rightarrow> num_token t)
   \<and> serialize_embeddings (\<lambda>x::int. if x = 0 then None else Some [49]) \<lparr>ys = [[[0, 1]]]\<rparr>
       = [123, 34, 121, 115, 34, 58, 91, 91, 91, 110, 117, 108, 108, 44, 49, 93, 93, 93, 125]
   \<and> read_json (serialize_embeddings (\<lambda>x::int. if x = 0 then None else Some [49]) \<lparr>ys = [[[0, 1]]]\<rparr>)
       = Inr (JObj [([121, 115], JArr [JArr [JArr [JNull, JNum [49]]]])])"
proof -
  have fmt: "\<forall>x. case (\<lambda>x::int. if x = 0 then None else Some [49]) x of None \<Rightarrow> True | Some t \<Rightarrow> num_token t"
    by (simp add: num_token_def ignore_scalar_def ignore_integer_def ignore_frac_exp_def is_dig_def)
  moreover have "serialize_embeddings (\<lambda>x::int. if x = 0 then None else Some [49]) \<lparr>ys = [[[0, 1]]]\<rparr>
       = [123, 34, 121, 115, 34, 58, 91, 91, 91, 110, 117, 108, 108, 44, 49, 93, 93, 93, 125]"
    by (simp add: serialize_embeddings_def embeddings_json_def f32_json_def ys_key_def json_string_def
        json_escape_def escape_out_def)
  ultimately show ?thesis
    using serialize_embeddings_json [of "\<lambda>x::int. if x = 0 then None else Some [49]" "\<lparr>ys = [[[0, 1]]]\<rparr>"]
    by simp
qed

end
