(* ===== verification/RwLock.thy ===== *)
theory RwLock
  imports Prelude
begin

text \<open>
  The concurrency guard: \<open>tokio::sync::RwLock\<close>, which src/src/main.rs wraps around the
  model (\<open>AppModel { bert: RwLock<model::Bert> }\<close>, \<open>RwLock::new\<close> at line 71) and
  reads with \<open>model.bert.read().await\<close> (line 33).
  tokio builds the lock on a fair batch semaphore holding \<open>MAX_READS = u32::MAX >> 3\<close>
  permits: a read guard takes one permit, a write guard all of them, so that a writer
  excludes every reader and every other writer. Tasks that cannot be served at once wait
  in a first-in first-out queue; a release hands the freed permits to the waiters from the
  head of the queue, and a task arriving while others wait queues behind them. This is the
  state machine below: the available permits, the queue, the granted guards and the
  protected value. The write path (\<open>write().await\<close>, the spec's reload) is never taken by
  the sources; it is modelled so that the exclusion the spec asks for can be stated.
\<close>

datatype mode = Read | Write

definition MAX_READS :: u32 where
  "MAX_READS = drop_bit 3 (- 1)"

definition max_reads :: nat where
  "max_reads = unat MAX_READS"

fun weight :: "mode \<Rightarrow> nat" where
  "weight Read = 1"
| "weight Write = max_reads"

record ('t, 'a) rwlock =
  rw_value :: 'a
  rw_permits :: nat
  rw_waiters :: "('t \<times> mode) list"
  rw_holders :: "('t \<times> mode) list"

definition rwlock_new :: "'a \<Rightarrow> ('t, 'a) rwlock" where
  "rwlock_new v = \<lparr>rw_value = v, rw_permits = max_reads, rw_waiters = [], rw_holders = []\<rparr>"

definition acquire :: "'t \<Rightarrow> mode \<Rightarrow> ('t, 'a) rwlock \<Rightarrow> ('t, 'a) rwlock" where
  "acquire t m l =
     (if rw_waiters l = [] \<and> weight m \<le> rw_permits l
      then l\<lparr>rw_permits := rw_permits l - weight m, rw_holders := (t, m) # rw_holders l\<rparr>
      else l\<lparr>rw_waiters := rw_waiters l @ [(t, m)]\<rparr>)"

fun grant :: "nat \<Rightarrow> ('t \<times> mode) list \<Rightarrow> ('t \<times> mode) list \<Rightarrow> nat \<times> ('t \<times> mode) list \<times> ('t \<times> mode) list" where
  "grant p [] hs = (p, [], hs)"
| "grant p ((t, m) # ws) hs =
     (if weight m \<le> p then grant (p - weight m) ws ((t, m) # hs) else (p, (t, m) # ws, hs))"

definition release :: "'t \<Rightarrow> mode \<Rightarrow> ('t, 'a) rwlock \<Rightarrow> ('t, 'a) rwlock" where
  "release t m l =
     (case grant (rw_permits l + weight m) (rw_waiters l) (remove1 (t, m) (rw_holders l)) of
        (p, ws, hs) \<Rightarrow> l\<lparr>rw_permits := p, rw_waiters := ws, rw_holders := hs\<rparr>)"

definition holds :: "('t, 'a) rwlock \<Rightarrow> 't \<Rightarrow> mode \<Rightarrow> bool" where
  "holds l t m \<longleftrightarrow> (t, m) \<in> set (rw_holders l)"

definition write_with :: "'t \<Rightarrow> ('a \<Rightarrow> 'a) \<Rightarrow> ('t, 'a) rwlock \<Rightarrow> ('t, 'a) rwlock" where
  "write_with t f l = l\<lparr>rw_value := f (rw_value l)\<rparr>"

inductive lock_step :: "('t, 'a) rwlock \<Rightarrow> ('t, 'a) rwlock \<Rightarrow> bool" where
  acquire_step: "lock_step l (acquire t m l)"
| release_step: "holds l t m \<Longrightarrow> lock_step l (release t m l)"
| write_step: "holds l t Write \<Longrightarrow> lock_step l (write_with t f l)"

inductive lock_reach :: "'a \<Rightarrow> ('t, 'a) rwlock \<Rightarrow> bool" for v where
  lock_init: "lock_reach v (rwlock_new v)"
| lock_next: "lock_reach v l \<Longrightarrow> lock_step l l' \<Longrightarrow> lock_reach v l'"

definition held_permits :: "('t \<times> mode) list \<Rightarrow> nat" where
  "held_permits hs = sum_list (map (weight \<circ> snd) hs)"

definition readers :: "('t, 'a) rwlock \<Rightarrow> nat" where
  "readers l = length (filter (\<lambda>h. snd h = Read) (rw_holders l))"

definition lock_tasks :: "('t, 'a) rwlock \<Rightarrow> 't list" where
  "lock_tasks l = map fst (rw_holders l @ rw_waiters l)"

definition lock_modes :: "('t \<Rightarrow> mode) \<Rightarrow> ('t, 'a) rwlock \<Rightarrow> bool" where
  "lock_modes md l \<longleftrightarrow> (\<forall>h \<in> set (rw_holders l @ rw_waiters l). snd h = md (fst h))"

text \<open>
  The invariant: permits are conserved (available plus held is \<open>MAX_READS\<close>), and the
  head of a non-empty queue is waiting for more permits than are available (nobody waits
  needlessly, and the queue is only served from its head).
\<close>

definition lock_inv :: "('t, 'a) rwlock \<Rightarrow> bool" where
  "lock_inv l \<longleftrightarrow>
     rw_permits l + held_permits (rw_holders l) = max_reads
     \<and> (rw_waiters l \<noteq> [] \<longrightarrow> rw_permits l < weight (snd (hd (rw_waiters l))))"

inductive_cases lock_stepE: "lock_step l l'"

subsection \<open>Permits\<close>

lemma max_reads_value: "max_reads = 536870911"
  by (simp add: max_reads_def MAX_READS_def unat_drop_bit_eq drop_bit_eq_div)

lemma held_permits_simps [simp]:
  "held_permits [] = 0"
  "held_permits (h # hs) = weight (snd h) + held_permits hs"
  by (simp_all add: held_permits_def)

lemma held_permits_remove1:
  "h \<in> set hs \<Longrightarrow> held_permits hs = weight (snd h) + held_permits (remove1 h hs)"
  by (induction hs) auto

lemma grant_conserves:
  "grant p ws hs = (p', ws', hs') \<Longrightarrow> p' + held_permits hs' = p + held_permits hs"
  by (induction p ws hs rule: grant.induct) (auto split: if_splits)

lemma grant_head:
  "grant p ws hs = (p', ws', hs') \<Longrightarrow> ws' \<noteq> [] \<Longrightarrow> p' < weight (snd (hd ws'))"
  by (induction p ws hs rule: grant.induct) (auto split: if_splits)

lemma grant_split:
  "grant p ws hs = (p', ws', hs') \<Longrightarrow> \<exists>gs. ws = gs @ ws' \<and> hs' = rev gs @ hs"
proof (induction p ws hs rule: grant.induct)
  case (1 p hs)
  then show ?case by simp
next
  case (2 p t m ws hs)
  show ?case
  proof (cases "weight m \<le> p")
    case True
    with "2.prems" have "grant (p - weight m) ws ((t, m) # hs) = (p', ws', hs')" by simp
    from "2.IH" [OF True this] obtain gs where "ws = gs @ ws'" "hs' = rev gs @ (t, m) # hs"
      by blast
    then show ?thesis by (intro exI [of _ "(t, m) # gs"]) simp
  next
    case False
    with "2.prems" show ?thesis by simp
  qed
qed

lemma weight_pos: "0 < weight m"
  by (cases m) (simp_all add: max_reads_value)

lemma weight_le_max: "weight m \<le> max_reads"
  by (cases m) (simp_all add: max_reads_value)

subsection \<open>Each step keeps the invariant\<close>

lemma lock_inv_new: "lock_inv (rwlock_new v)"
  by (simp add: lock_inv_def rwlock_new_def)

lemma acquire_inv: "lock_inv l \<Longrightarrow> lock_inv (acquire t m l)"
  by (auto simp: lock_inv_def acquire_def hd_append)

lemma release_inv:
  assumes "lock_inv l" and "holds l t m"
  shows "lock_inv (release t m l)"
proof -
  obtain p ws hs where g: "grant (rw_permits l + weight m) (rw_waiters l) (remove1 (t, m) (rw_holders l))
                           = (p, ws, hs)"
    by (cases "grant (rw_permits l + weight m) (rw_waiters l) (remove1 (t, m) (rw_holders l))") auto
  have "held_permits (rw_holders l) = weight m + held_permits (remove1 (t, m) (rw_holders l))"
    using assms(2) held_permits_remove1 [of "(t, m)"] by (simp add: holds_def)
  then have "p + held_permits hs = max_reads"
    using grant_conserves [OF g] assms(1) by (simp add: lock_inv_def)
  moreover have "ws \<noteq> [] \<longrightarrow> p < weight (snd (hd ws))"
    using grant_head [OF g] by blast
  ultimately show ?thesis
    using g by (simp add: release_def lock_inv_def)
qed

lemma write_with_inv: "lock_inv l \<Longrightarrow> lock_inv (write_with t f l)"
  by (simp add: lock_inv_def write_with_def)

lemma lock_step_inv: "lock_step l l' \<Longrightarrow> lock_inv l \<Longrightarrow> lock_inv l'"
  by (induction rule: lock_step.induct) (simp_all add: acquire_inv release_inv write_with_inv)

lemma lock_reach_inv: "lock_reach v l \<Longrightarrow> lock_inv l"
  by (induction rule: lock_reach.induct) (auto intro: lock_inv_new lock_step_inv)

lemma held_permits_zero: "held_permits hs = 0 \<longleftrightarrow> hs = []"
  by (induction hs) (auto simp: weight_pos)

lemma remove1_eq_Nil: "x \<in> set xs \<Longrightarrow> remove1 x xs = [] \<Longrightarrow> xs = [x]"
  by (induction xs) (auto split: if_splits)

lemma write_holder_alone:
  assumes "lock_inv l" and "holds l t Write"
  shows "rw_holders l = [(t, Write)]"
proof -
  have inv: "rw_permits l + held_permits (rw_holders l) = max_reads"
    using assms(1) by (simp add: lock_inv_def)
  have "held_permits (rw_holders l) = max_reads + held_permits (remove1 (t, Write) (rw_holders l))"
    using assms(2) held_permits_remove1 [of "(t, Write)"] by (simp add: holds_def)
  with inv have "remove1 (t, Write) (rw_holders l) = []"
    by (simp add: held_permits_zero)
  moreover have "(t, Write) \<in> set (rw_holders l)" using assms(2) by (simp add: holds_def)
  ultimately show ?thesis
    by (simp add: remove1_eq_Nil)
qed

lemma waiters_have_holders:
  assumes "lock_inv l" and "rw_waiters l \<noteq> []"
  shows "rw_holders l \<noteq> []"
proof
  assume "rw_holders l = []"
  then have "rw_permits l = max_reads" using assms(1) by (simp add: lock_inv_def)
  moreover have "rw_permits l < weight (snd (hd (rw_waiters l)))"
    using assms by (simp add: lock_inv_def)
  ultimately show False using weight_le_max [of "snd (hd (rw_waiters l))"] by simp
qed

subsection \<open>Which tasks the lock knows, and in which mode\<close>

lemma release_parts:
  obtains gs where "rw_waiters l = gs @ rw_waiters (release t m l)"
    and "rw_holders (release t m l) = rev gs @ remove1 (t, m) (rw_holders l)"
proof -
  obtain p ws hs where g: "grant (rw_permits l + weight m) (rw_waiters l) (remove1 (t, m) (rw_holders l))
                           = (p, ws, hs)"
    by (cases "grant (rw_permits l + weight m) (rw_waiters l) (remove1 (t, m) (rw_holders l))") auto
  from grant_split [OF g] obtain gs where "rw_waiters l = gs @ ws" "hs = rev gs @ remove1 (t, m) (rw_holders l)"
    by blast
  with g show ?thesis using that by (simp add: release_def)
qed

lemma mset_fst_remove1:
  "h \<in> set hs \<Longrightarrow> mset (map fst hs) = add_mset (fst h) (mset (map fst (remove1 h hs)))"
  by (induction hs) auto

lemma mset_tasks_acquire: "mset (lock_tasks (acquire t m l)) = add_mset t (mset (lock_tasks l))"
  by (simp add: lock_tasks_def acquire_def)

lemma mset_tasks_release:
  assumes "holds l t m"
  shows "mset (lock_tasks (release t m l)) = mset (lock_tasks l) - {#t#}"
proof -
  obtain gs where w: "rw_waiters l = gs @ rw_waiters (release t m l)"
    and h: "rw_holders (release t m l) = rev gs @ remove1 (t, m) (rw_holders l)"
    by (rule release_parts)
  have "mset (map fst (rw_holders l)) = add_mset t (mset (map fst (remove1 (t, m) (rw_holders l))))"
    using assms mset_fst_remove1 [of "(t, m)" "rw_holders l"] by (simp only: holds_def fst_conv)
  then show ?thesis
    by (simp add: lock_tasks_def w h)
qed

lemma lock_tasks_write [simp]: "lock_tasks (write_with t f l) = lock_tasks l"
  by (simp add: lock_tasks_def write_with_def)

lemma lock_modes_acquire: "lock_modes md l \<Longrightarrow> lock_modes md (acquire t (md t) l)"
  by (auto simp: lock_modes_def acquire_def)

lemma lock_modes_release: "lock_modes md l \<Longrightarrow> lock_modes md (release t m l)"
proof -
  obtain gs where w: "rw_waiters l = gs @ rw_waiters (release t m l)"
    and h: "rw_holders (release t m l) = rev gs @ remove1 (t, m) (rw_holders l)"
    by (rule release_parts)
  assume "lock_modes md l"
  then show ?thesis
    by (auto simp: lock_modes_def w h dest: set_remove1_subset [THEN subsetD])
qed

lemma lock_modes_write [simp]: "lock_modes md (write_with t f l) = lock_modes md l"
  by (simp add: lock_modes_def write_with_def)

lemma holder_kept_release:
  "h \<in> set (rw_holders l) \<Longrightarrow> h \<noteq> (t, m) \<Longrightarrow> h \<in> set (rw_holders (release t m l))"
  by (rule release_parts [of l t m]) auto

lemma holder_kept_acquire: "h \<in> set (rw_holders l) \<Longrightarrow> h \<in> set (rw_holders (acquire t m l))"
  by (simp add: acquire_def)

lemma holders_write [simp]: "rw_holders (write_with t f l) = rw_holders l"
  by (simp add: write_with_def)

lemma readers_le_held: "length (filter (\<lambda>h. snd h = Read) hs) \<le> held_permits hs"
  by (induction hs) auto

subsection \<open>Properties of the lock\<close>

text \<open>
  C14. Read/write exclusion: in every state the lock can reach, a task holding the write
  guard is the only holder of any guard, so no reader ever observes the value while a
  writer is changing it, and no two writers overlap.
\<close>

theorem rwlock_exclusive_write:
  assumes "lock_reach v l" and "holds l t Write"
  shows "rw_holders l = [(t, Write)]"
  using write_holder_alone [OF lock_reach_inv [OF assms(1)] assms(2)] .

theorem rwlock_exclusive_write_witness:
  "rw_holders (acquire (1::nat) Write (rwlock_new (42::int))) = [(1, Write)]"
proof (rule rwlock_exclusive_write)
  show "lock_reach 42 (acquire (1::nat) Write (rwlock_new (42::int)))"
    by (rule lock_next [OF lock_init acquire_step])
  show "holds (acquire (1::nat) Write (rwlock_new (42::int))) 1 Write"
    by (simp add: holds_def acquire_def rwlock_new_def)
qed

text \<open>
  C15. Bound on readers: at most \<open>MAX_READS = u32::MAX >> 3 = 536870911\<close> read guards
  are held at once; the next reader waits.
\<close>

theorem rwlock_readers_bound:
  assumes "lock_reach v l"
  shows "readers l \<le> unat MAX_READS \<and> (readers l = unat MAX_READS \<longrightarrow> \<not> holds (acquire t Read l) t Read \<or> holds l t Read)"
proof -
  have inv: "rw_permits l + held_permits (rw_holders l) = max_reads"
    using lock_reach_inv [OF assms] by (simp add: lock_inv_def)
  have r: "readers l \<le> held_permits (rw_holders l)"
    by (simp add: readers_def readers_le_held)
  then have "readers l \<le> unat MAX_READS" using inv by (simp add: max_reads_def)
  moreover have "readers l = unat MAX_READS \<longrightarrow> rw_permits l = 0"
    using inv r by (simp add: max_reads_def)
  ultimately show ?thesis
    by (auto simp: acquire_def holds_def)
qed

theorem rwlock_readers_bound_witness:
  "readers (acquire (2::nat) Read (rwlock_new (0::int))) \<le> unat MAX_READS"
  using rwlock_readers_bound [OF lock_next [OF lock_init acquire_step [of "rwlock_new (0::int)" "2::nat" Read]]]
  by (rule conjunct1)

text \<open>
  C16. Fairness towards writers: while a writer waits in the queue, no step lets a task
  that is not ahead of it overtake it. Whatever the step (a task arriving, a guard
  released, a write), the tasks granted a guard are the first \<open>k\<close> of those queued
  ahead of the writer, which leave the queue; the writer and everything behind it stay
  queued, in order, and new arrivals join at the back. In particular a reader arriving
  while a writer waits is queued, never granted at once.
\<close>

theorem rwlock_writer_not_overtaken:
  assumes "lock_step l l'" and "rw_waiters l = xs @ (w, Write) # ys"
    and "(w, Write) \<notin> set xs" and "(w, Write) \<notin> set ys"
    and "(w, Write) \<in> set (rw_waiters l')"
  shows "\<exists>k zs. rw_waiters l' = drop k xs @ (w, Write) # ys @ zs
                \<and> mset (rw_holders l') \<subseteq># mset (rw_holders l) + mset (take k xs)"
  using assms(1)
proof (cases rule: lock_step.cases)
  case (acquire_step t m)
  then show ?thesis using assms(2)
    by (intro exI [of _ 0] exI [of _ "[(t, m)]"]) (simp add: acquire_def)
next
  case (release_step t m)
  obtain gs where w: "rw_waiters l = gs @ rw_waiters l'"
    and h: "rw_holders l' = rev gs @ remove1 (t, m) (rw_holders l)"
    using release_parts [of l t m] release_step(1) by blast
  have split: "gs @ rw_waiters l' = xs @ (w, Write) # ys" using w assms(2) by simp
  show ?thesis
  proof (cases "length gs \<le> length xs")
    case True
    then have gs: "gs = take (length gs) xs" and rest: "rw_waiters l' = drop (length gs) xs @ (w, Write) # ys"
      using split by (metis append_eq_append_conv_if)+
    have "mset (rw_holders l') = mset gs + (mset (rw_holders l) - {#(t, m)#})"
      by (simp add: h mset_remove1)
    also have "\<dots> \<subseteq># mset (rw_holders l) + mset (take (length gs) xs)"
      using gs by (metis subset_mset.add_mono diff_subset_eq_self add.commute subset_mset.order_refl)
    finally show ?thesis using rest by (intro exI [of _ "length gs"] exI [of _ "[]"]) simp
  next
    case False
    then have rest: "rw_waiters l' = drop (length gs) (xs @ (w, Write) # ys)"
      using split by (metis append_eq_conv_conj)
    obtain k where k: "length gs - length xs = Suc k"
      using False by (metis not_le zero_less_diff gr0_conv_Suc)
    have "set (rw_waiters l') \<subseteq> set ys"
      using rest False k by (auto dest: in_set_dropD)
    with assms(4,5) show ?thesis by blast
  qed
next
  case (write_step t f)
  then show ?thesis using assms(2)
    by (intro exI [of _ 0] exI [of _ "[]"]) (simp add: write_with_def)
qed

theorem rwlock_writer_not_overtaken_witness:
  "\<exists>k zs. rw_waiters (release 1 Write (acquire 3 Write (acquire 2 Read (acquire (1::nat) Write (rwlock_new (0::int))))))
              = drop k [(2, Read)] @ (3, Write) # [] @ zs
          \<and> mset (rw_holders (release 1 Write (acquire 3 Write (acquire 2 Read (acquire (1::nat) Write (rwlock_new (0::int)))))))
              \<subseteq># mset (rw_holders (acquire 3 Write (acquire 2 Read (acquire (1::nat) Write (rwlock_new (0::int))))))
                 + mset (take k [(2, Read)])"
proof (rule rwlock_writer_not_overtaken)
  show "lock_step (acquire 3 Write (acquire 2 Read (acquire (1::nat) Write (rwlock_new (0::int)))))
          (release 1 Write (acquire 3 Write (acquire 2 Read (acquire (1::nat) Write (rwlock_new (0::int))))))"
    by (rule release_step) (simp add: holds_def acquire_def rwlock_new_def max_reads_value)
  show "rw_waiters (acquire 3 Write (acquire 2 Read (acquire (1::nat) Write (rwlock_new (0::int)))))
          = [(2, Read)] @ (3, Write) # []"
    by (simp add: acquire_def rwlock_new_def max_reads_value)
  show "(3, Write) \<notin> set [(2::nat, Read)]" by simp
  show "(3, Write) \<notin> set ([] :: (nat \<times> mode) list)" by simp
  show "(3, Write) \<in> set (rw_waiters (release 1 Write (acquire 3 Write (acquire 2 Read
          (acquire (1::nat) Write (rwlock_new (0::int)))))))"
    by (simp add: release_def acquire_def rwlock_new_def max_reads_value)
qed

end
