(* ===== verification/Dispatch.thy ===== *)
theory Dispatch
  imports Wire RwLock
begin

text \<open>
  The concurrent server of src/src/main.rs: \<open>main\<close> builds the model, wraps it in
  \<open>RwLock::new\<close> and starts \<open>HttpServer::new(..).workers(8)\<close>; every request runs the
  middleware and the \<open>predict\<close> handler on one of the worker threads, and the handler's
  \<open>model.bert.read().await\<close> is the only point where a request may be suspended.
  \<^item> A request arrives as headers and body bytes (\<open>ReceiveBody\<close>, \<open>receive_body\<close>):
    the \<open>Json<Prompt>\<close> extractor (theory Wire) either yields the prompt, and the request
    is accepted as by \<open>Receive\<close>, or refuses the body, and the worker answers with the
    extractor's error (\<open>reject\<close>, recorded in \<open>srv_rejected\<close>). \<open>Receive\<close> is the
    event of a request whose prompt has been extracted.
  \<^item> A request (\<open>request\<close>) is received on a worker and moves through the phases
    \<open>Received\<close> (accepted), \<open>Waiting\<close> (the middleware printed the payload size and the
    handler asked for the read guard), \<open>Running b\<close> (the guard is held; \<open>b\<close> is the model it
    reads), and one of \<open>Answered\<close>, \<open>ErrorResponse\<close>, \<open>Aborted\<close> (the handler panicked:
    the connection is dropped without a response).
  \<^item> From the moment the guard is granted to the end of the handler the code does not
    await, so the handler body, the unwinding or return through the middleware and the
    drop of the guard are one step (\<open>finish\<close>); a worker thread runs one such step at a
    time (\<open>worker_busy\<close>).
  \<^item> The write path is the spec's reload (\<open>withWriteAccess\<close>, spec 4.4), which the sources
    never take: a reloader task asks for the write guard, replaces the network, then the
    tokenizer and device, and releases the guard. Its two writes expose an intermediate,
    torn model inside the lock, which the properties show no request ever reads.
  Every operation is a partial function on the server state (\<open>None\<close> when it is not
  enabled); \<open>step\<close> dispatches an \<open>event\<close> to it and \<open>run\<close> performs a sequence of
  events, one interleaving of the requests and the reloader.
\<close>

datatype task = Req nat | Reloader

fun task_mode :: "task \<Rightarrow> mode" where
  "task_mode (Req i) = Read"
| "task_mode Reloader = Write"

datatype 'f phase =
    Received
  | Waiting
  | Running "'f bert"
  | Answered "'f embeddings"
  | ErrorResponse error
  | Aborted error

record 'f request =
  rq_headers :: header_map
  rq_prompt :: prompt
  rq_worker :: nat
  rq_phase :: "'f phase"

datatype 'f reload = Idle | Requested "'f bert" | Swapping "'f bert"

record 'f server =
  srv_lock :: "(task, 'f bert) rwlock"
  srv_reqs :: "'f request list"
  srv_out :: "log list"
  srv_workers :: nat
  srv_reload :: "'f reload"
  srv_history :: "'f bert list"
  srv_rejected :: "(nat \<times> json_payload_error) list"

datatype 'f event =
    ReceiveBody header_map bytes nat
  | Receive header_map prompt nat
  | Start nat
  | Resume nat
  | Finish nat
  | ReloadRequest "'f bert"
  | ReloadSwap
  | ReloadDone

definition WORKERS :: nat where
  "WORKERS = 8"

fun is_running :: "'f phase \<Rightarrow> bool" where
  "is_running (Running b) = True"
| "is_running _ = False"

fun in_lock :: "'f phase \<Rightarrow> bool" where
  "in_lock Waiting = True"
| "in_lock (Running b) = True"
| "in_lock _ = False"

fun phase_of :: "'f embeddings outcome \<Rightarrow> 'f phase" where
  "phase_of (Ok v) = Answered v"
| "phase_of (Err e) = ErrorResponse e"
| "phase_of (Panicked e) = Aborted e"

subsection \<open>The two halves of the middleware around the await\<close>

definition middleware_enter :: "header_map \<Rightarrow> unit io" where
  "middleware_enter headers = println (PayloadSize (payload_size headers))"

definition middleware_leave :: "'a io \<Rightarrow> 'a io" where
  "middleware_leave next =
     io_bind (io_attempt next) (\<lambda>res.
     io_bind (println RequestTook) (\<lambda>_.
     io_lift res))"

subsection \<open>Start-up\<close>

definition server_init :: "'f bert \<Rightarrow> log list \<Rightarrow> 'f server" where
  "server_init b out =
     \<lparr>srv_lock = rwlock_new b, srv_reqs = [], srv_out = out, srv_workers = WORKERS,
      srv_reload = Idle, srv_history = [b], srv_rejected = []\<rparr>"

definition main :: "('vb, 'f) hub_env \<Rightarrow> bool \<Rightarrow> 'f server io" where
  "main E bind_ok =
     io_bind (io_lift (unwrap (bert_new E None None False False))) (\<lambda>b.
     io_bind (println CurrentPid) (\<lambda>_.
     (\<lambda>out. if bind_ok then (Ok (server_init b out), out) else (Err IoError, out))))"

subsection \<open>Requests\<close>

definition worker_busy :: "'f server \<Rightarrow> nat \<Rightarrow> bool" where
  "worker_busy s w \<longleftrightarrow> list_ex (\<lambda>r. rq_worker r = w \<and> is_running (rq_phase r)) (srv_reqs s)"

definition set_phase :: "nat \<Rightarrow> 'f phase \<Rightarrow> 'f request list \<Rightarrow> 'f request list" where
  "set_phase i ph rs = rs[i := (rs ! i)\<lparr>rq_phase := ph\<rparr>]"

definition receive :: "header_map \<Rightarrow> prompt \<Rightarrow> nat \<Rightarrow> 'f server \<Rightarrow> 'f server option" where
  "receive h p w s =
     (if w < srv_workers s
      then Some (s\<lparr>srv_reqs := srv_reqs s @ [\<lparr>rq_headers = h, rq_prompt = p, rq_worker = w,
                                              rq_phase = Received\<rparr>]\<rparr>)
      else None)"

text \<open>
  A request whose body the \<open>Json<Prompt>\<close> extractor refuses never reaches the
  handler's body: the worker runs \<open>middleware_time_elapsed\<close> around the route's
  service, and actix-web's handler service, when the extractor fails, returns
  \<open>Ok(ServiceResponse::from_err(err, req))\<close> without running the handler (here
  \<open>io_return e\<close>), so the middleware prints both of its lines around the error response
  and no guard is asked for. It is one step of a free worker.
\<close>

definition reject :: "header_map \<Rightarrow> json_payload_error \<Rightarrow> nat \<Rightarrow> 'f server \<Rightarrow> 'f server option" where
  "reject h e w s =
     (if w < srv_workers s \<and> \<not> worker_busy s w
      then Some (s\<lparr>srv_out := snd (middleware_time_elapsed h (io_return e) (srv_out s)),
                   srv_rejected := srv_rejected s @ [(w, e)]\<rparr>)
      else None)"

definition receive_body :: "header_map \<Rightarrow> bytes \<Rightarrow> nat \<Rightarrow> 'f server \<Rightarrow> 'f server option" where
  "receive_body h body w s =
     (case json_extract h body of
        Inr p \<Rightarrow> receive h p w s
      | Inl e \<Rightarrow> reject h e w s)"

definition start :: "nat \<Rightarrow> 'f server \<Rightarrow> 'f server option" where
  "start i s =
     (if i < length (srv_reqs s) \<and> \<not> worker_busy s (rq_worker (srv_reqs s ! i)) then
        (case rq_phase (srv_reqs s ! i) of
           Received \<Rightarrow>
             Some (s\<lparr>srv_reqs := set_phase i Waiting (srv_reqs s),
                     srv_out := snd (middleware_enter (rq_headers (srv_reqs s ! i)) (srv_out s)),
                     srv_lock := acquire (Req i) Read (srv_lock s)\<rparr>)
         | _ \<Rightarrow> None)
      else None)"

definition resume :: "nat \<Rightarrow> 'f server \<Rightarrow> 'f server option" where
  "resume i s =
     (if i < length (srv_reqs s) \<and> \<not> worker_busy s (rq_worker (srv_reqs s ! i))
         \<and> holds (srv_lock s) (Req i) Read then
        (case rq_phase (srv_reqs s ! i) of
           Waiting \<Rightarrow> Some (s\<lparr>srv_reqs := set_phase i (Running (rw_value (srv_lock s))) (srv_reqs s)\<rparr>)
         | _ \<Rightarrow> None)
      else None)"

definition finish :: "nat \<Rightarrow> 'f server \<Rightarrow> 'f server option" where
  "finish i s =
     (if i < length (srv_reqs s) then
        (case rq_phase (srv_reqs s ! i) of
           Running b \<Rightarrow>
             (case middleware_leave (predict_handler b (rq_prompt (srv_reqs s ! i))) (srv_out s) of
                (r, out') \<Rightarrow>
                  Some (s\<lparr>srv_reqs := set_phase i (phase_of r) (srv_reqs s), srv_out := out',
                          srv_lock := release (Req i) Read (srv_lock s)\<rparr>))
         | _ \<Rightarrow> None)
      else None)"

subsection \<open>The reload path\<close>

definition reload_request :: "'f bert \<Rightarrow> 'f server \<Rightarrow> 'f server option" where
  "reload_request b' s =
     (case srv_reload s of
        Idle \<Rightarrow> Some (s\<lparr>srv_reload := Requested b', srv_lock := acquire Reloader Write (srv_lock s)\<rparr>)
      | _ \<Rightarrow> None)"

definition reload_swap :: "'f server \<Rightarrow> 'f server option" where
  "reload_swap s =
     (case srv_reload s of
        Requested b' \<Rightarrow>
          (if holds (srv_lock s) Reloader Write
           then Some (s\<lparr>srv_reload := Swapping b',
                        srv_lock := write_with Reloader (\<lambda>b. b\<lparr>model := model b'\<rparr>) (srv_lock s)\<rparr>)
           else None)
      | _ \<Rightarrow> None)"

definition reload_done :: "'f server \<Rightarrow> 'f server option" where
  "reload_done s =
     (case srv_reload s of
        Swapping b' \<Rightarrow>
          Some (s\<lparr>srv_reload := Idle, srv_history := srv_history s @ [b'],
                  srv_lock := release Reloader Write
                    (write_with Reloader (\<lambda>b. b\<lparr>tokenizer := tokenizer b', device := device b'\<rparr>)
                       (srv_lock s))\<rparr>)
      | _ \<Rightarrow> None)"

subsection \<open>Interleavings\<close>

fun step :: "'f event \<Rightarrow> 'f server \<Rightarrow> 'f server option" where
  "step (ReceiveBody h body w) = receive_body h body w"
| "step (Receive h p w) = receive h p w"
| "step (Start i) = start i"
| "step (Resume i) = resume i"
| "step (Finish i) = finish i"
| "step (ReloadRequest b') = reload_request b'"
| "step ReloadSwap = reload_swap"
| "step ReloadDone = reload_done"

fun run :: "'f event list \<Rightarrow> 'f server \<Rightarrow> 'f server option" where
  "run [] s = Some s"
| "run (e # es) s = Option.bind (step e s) (run es)"

inductive srv_reach :: "'f server \<Rightarrow> bool" where
  srv_init: "srv_reach (server_init b out)"
| srv_next: "srv_reach s \<Longrightarrow> step e s = Some s' \<Longrightarrow> srv_reach s'"

subsection \<open>Concrete instances\<close>

text \<open>
  A small model for the witnesses: the toy model of theory Bert with a hidden size of 2, so
  that a whole request can be evaluated by the simplifier.
\<close>

definition tiny_config :: config where
  "tiny_config = minilm_config\<lparr>hidden_size := 2\<rparr>"

definition tiny_bert :: "int bert" where
  "tiny_bert = toy_bert\<lparr>model := \<lparr>bm_config = tiny_config, bm_forward = toy_forward tiny_config\<rparr>\<rparr>"

definition tiny_bert' :: "int bert" where
  "tiny_bert' = tiny_bert\<lparr>tokenizer := (tokenizer tiny_bert)\<lparr>tk_prefix := [], tk_suffix := []\<rparr>\<rparr>"

subsection \<open>Lemmas\<close>

lemma middleware_split:
  "middleware_time_elapsed headers next = io_bind (middleware_enter headers) (\<lambda>_. middleware_leave next)"
  by (simp add: middleware_time_elapsed_def middleware_enter_def middleware_leave_def)

lemma middleware_leave_apply:
  "middleware_leave m out =
     (case m out of (Panicked e, out') \<Rightarrow> (Panicked e, out') | (r, out') \<Rightarrow> (r, out' @ [RequestTook]))"
  by (simp add: middleware_leave_def io_bind_println io_bind_apply io_attempt_def
      io_lift_apply println_apply split: prod.split outcome.split)

lemma middleware_leave_result: "fst (middleware_leave m out) = fst (m out)"
  by (simp add: middleware_leave_apply split: prod.split outcome.split)

lemma predict_result_indep: "fst (predict b s out) = fst (predict b s [])"
  by (simp add: predict_def io_bind_def io_lift_def println_def io_return_def
      split: outcome.splits prod.splits)

lemma handler_result_indep: "fst (predict_handler b p out) = fst (predict_handler b p [])"
proof -
  obtain r o1 o2 where "predict b (prompt_text p) (out @ [Predicting (prompt_text p)]) = (r, o1)"
    and "predict b (prompt_text p) [Predicting (prompt_text p)] = (r, o2)"
    by (metis predict_result_indep prod.collapse)
  then show ?thesis
    by (cases r) (simp_all add: predict_handler_apply split: outcome.split)
qed

lemma set_phase_length [simp]: "length (set_phase i ph rs) = length rs"
  by (simp add: set_phase_def)

lemma set_phase_nth [simp]:
  "i < length rs \<Longrightarrow> set_phase i ph rs ! j = (if j = i then (rs ! i)\<lparr>rq_phase := ph\<rparr> else rs ! j)"
  by (simp add: set_phase_def)

lemma worker_busy_iff:
  "worker_busy s w \<longleftrightarrow> (\<exists>j < length (srv_reqs s). rq_worker (srv_reqs s ! j) = w
                                               \<and> is_running (rq_phase (srv_reqs s ! j)))"
  unfolding worker_busy_def list_ex_iff by (metis in_set_conv_nth)

lemma rw_value_new: "rw_value (rwlock_new v) = v"
  by (simp add: rwlock_new_def)

lemma holds_acquire_new: "holds (acquire t Read (rwlock_new v)) t Read"
  by (simp add: holds_def acquire_def rwlock_new_def max_reads_value)

lemma acquire_release_new: "release t Read (acquire t Read (rwlock_new v)) = rwlock_new v"
  by (simp add: release_def acquire_def rwlock_new_def max_reads_value)

lemma handler_never_err: "fst (predict_handler b p out) \<noteq> Err e"
  by (simp add: predict_handler_apply split: prod.split outcome.split)

end
