(* ===== verification/Dispatch_Safety.thy ===== *)
theory Dispatch_Safety
  imports Dispatch
begin

text \<open>
  The invariant of the concurrent server (theory Dispatch) and its proof by induction over
  the reachable states: every event preserves \<open>srv_inv\<close>. The invariant ties the lock's
  bookkeeping to the requests' phases (the tasks the lock knows, holding or queued, are
  exactly the waiting and running requests and the active reloader, each once), says that
  a running request holds its read guard and reads the last committed model, that the
  reloader holds the write guard while the model is torn, that a worker runs one request at
  a time, and that every finished request carries the result of the handler on its own
  prompt and a committed model. The last sections prove progress: a received request can
  be served to completion, and a requested reload is granted the write guard (by induction
  on \<open>reload_measure\<close>, the guards held plus the waiters queued ahead of the reloader).
\<close>

fun finished :: "'f phase \<Rightarrow> bool" where
  "finished (Answered v) = True"
| "finished (ErrorResponse e) = True"
| "finished (Aborted e) = True"
| "finished _ = False"

definition active :: "'f server \<Rightarrow> task multiset" where
  "active s =
     mset (map Req (filter (\<lambda>i. in_lock (rq_phase (srv_reqs s ! i))) [0..<length (srv_reqs s)]))
     + (case srv_reload s of Idle \<Rightarrow> {#} | _ \<Rightarrow> {#Reloader#})"

definition handled_by :: "'f server \<Rightarrow> 'f request \<Rightarrow> bool" where
  "handled_by s r \<longleftrightarrow>
     (\<exists>b \<in> set (srv_history s). phase_of (fst (predict_handler b (rq_prompt r) [])) = rq_phase r)"

definition running_ok :: "'f server \<Rightarrow> nat \<Rightarrow> bool" where
  "running_ok s i \<longleftrightarrow>
     (case rq_phase (srv_reqs s ! i) of
        Running b \<Rightarrow> holds (srv_lock s) (Req i) Read \<and> b = last (srv_history s)
      | _ \<Rightarrow> (finished (rq_phase (srv_reqs s ! i)) \<longrightarrow> handled_by s (srv_reqs s ! i)))"

definition reload_ok :: "'f server \<Rightarrow> bool" where
  "reload_ok s \<longleftrightarrow>
     (case srv_reload s of
        Swapping b' \<Rightarrow> holds (srv_lock s) Reloader Write \<and> model (rw_value (srv_lock s)) = model b'
      | _ \<Rightarrow> rw_value (srv_lock s) = last (srv_history s))"

definition one_per_worker :: "'f server \<Rightarrow> bool" where
  "one_per_worker s \<longleftrightarrow>
     (\<forall>i < length (srv_reqs s). \<forall>j < length (srv_reqs s).
        is_running (rq_phase (srv_reqs s ! i)) \<and> is_running (rq_phase (srv_reqs s ! j))
        \<and> rq_worker (srv_reqs s ! i) = rq_worker (srv_reqs s ! j) \<longrightarrow> i = j)"

definition srv_inv :: "'f server \<Rightarrow> bool" where
  "srv_inv s \<longleftrightarrow>
     lock_inv (srv_lock s) \<and> lock_modes task_mode (srv_lock s)
     \<and> mset (lock_tasks (srv_lock s)) = active s
     \<and> srv_history s \<noteq> [] \<and> srv_workers s = WORKERS \<and> reload_ok s \<and> one_per_worker s
     \<and> (\<forall>i < length (srv_reqs s). rq_worker (srv_reqs s ! i) < srv_workers s \<and> running_ok s i)"

text \<open>
  A measure of the work left before a requested reload is granted the write guard: the
  guards held, and (counted twice) the waiters queued ahead of the reloader, who are
  granted before it.
\<close>

definition ahead :: "(task, 'f bert) rwlock \<Rightarrow> nat" where
  "ahead l = length (takeWhile (\<lambda>h. fst h \<noteq> Reloader) (rw_waiters l))"

definition reload_measure :: "'f server \<Rightarrow> nat" where
  "reload_measure s = length (rw_holders (srv_lock s)) + 2 * ahead (srv_lock s)"

text \<open>
  The schedule that serves a received request \<open>i\<close>: finish the handler that runs on
  its worker thread, if there is one, then start, resume and finish \<open>i\<close>.
\<close>

definition running_on :: "'f server \<Rightarrow> nat \<Rightarrow> nat list" where
  "running_on s w =
     filter (\<lambda>j. rq_worker (srv_reqs s ! j) = w \<and> is_running (rq_phase (srv_reqs s ! j)))
       [0..<length (srv_reqs s)]"

definition serve_schedule :: "'f server \<Rightarrow> nat \<Rightarrow> 'f event list" where
  "serve_schedule s i = map Finish (running_on s (rq_worker (srv_reqs s ! i))) @ [Start i, Resume i, Finish i]"

subsection \<open>Counting the active tasks\<close>

lemma task_mset_eqI:
  assumes "\<And>j. count A (Req j) = count B (Req j)" and "count A Reloader = count B Reloader"
  shows "A = B"
proof (rule multiset_eqI)
  fix t
  show "count A t = count B t" using assms by (cases t) simp_all
qed

lemma count_active_Req:
  "count (active s) (Req i) =
     (if i < length (srv_reqs s) \<and> in_lock (rq_phase (srv_reqs s ! i)) then 1 else 0)"
proof -
  let ?xs = "map Req (filter (\<lambda>i. in_lock (rq_phase (srv_reqs s ! i))) [0..<length (srv_reqs s)])"
  have "distinct ?xs" by (simp add: distinct_map inj_on_def)
  then have "count (mset ?xs) (Req i) = (if Req i \<in> set ?xs then 1 else 0)"
    by (simp add: distinct_count_atmost_1)
  then show ?thesis
    by (auto simp: active_def split: reload.split)
qed

lemma count_active_Reloader:
  "count (active s) Reloader = (case srv_reload s of Idle \<Rightarrow> 0 | _ \<Rightarrow> 1)"
  by (auto simp: active_def count_eq_zero_iff split: reload.split)

lemma holds_acquire: "holds l t m \<Longrightarrow> holds (acquire t' m' l) t m"
  by (simp add: holds_def holder_kept_acquire)

lemma holds_release: "holds l t m \<Longrightarrow> (t, m) \<noteq> (t', m') \<Longrightarrow> holds (release t' m' l) t m"
  by (simp add: holds_def holder_kept_release)

lemma rw_value_acquire [simp]: "rw_value (acquire t m l) = rw_value l"
  by (simp add: acquire_def)

lemma rw_value_release [simp]: "rw_value (release t m l) = rw_value l"
  by (simp add: release_def split: prod.split)

lemma holds_write [simp]: "holds (write_with t f l) t' m = holds l t' m"
  by (simp add: holds_def)

lemma no_running_while_writing:
  assumes "srv_inv s" and "holds (srv_lock s) Reloader Write" and "i < length (srv_reqs s)"
  shows "\<not> is_running (rq_phase (srv_reqs s ! i))"
proof
  assume "is_running (rq_phase (srv_reqs s ! i))"
  then obtain b where "rq_phase (srv_reqs s ! i) = Running b"
    by (cases "rq_phase (srv_reqs s ! i)") simp_all
  moreover have "running_ok s i" using assms(1,3) by (simp add: srv_inv_def)
  ultimately have "holds (srv_lock s) (Req i) Read"
    by (simp add: running_ok_def)
  moreover have "rw_holders (srv_lock s) = [(Reloader, Write)]"
    using assms(1,2) by (intro write_holder_alone) (simp_all add: srv_inv_def)
  ultimately show False by (simp add: holds_def)
qed

lemma rw_value_write [simp]: "rw_value (write_with t f l) = f (rw_value l)"
  by (simp add: write_with_def)

lemma reader_sees_committed:
  assumes "srv_inv s" and "holds (srv_lock s) (Req i) Read"
  shows "rw_value (srv_lock s) = last (srv_history s)"
proof (cases "srv_reload s")
  case (Swapping b')
  with assms(1) have "holds (srv_lock s) Reloader Write"
    by (simp add: srv_inv_def reload_ok_def)
  with assms(1) have "rw_holders (srv_lock s) = [(Reloader, Write)]"
    by (intro write_holder_alone) (simp_all add: srv_inv_def)
  with assms(2) show ?thesis by (simp add: holds_def)
qed (use assms(1) in \<open>simp_all add: srv_inv_def reload_ok_def\<close>)

lemma running_holds:
  "srv_inv s \<Longrightarrow> i < length (srv_reqs s) \<Longrightarrow> rq_phase (srv_reqs s ! i) = Running b \<Longrightarrow>
     holds (srv_lock s) (Req i) Read \<and> b = last (srv_history s)"
  by (auto simp: srv_inv_def running_ok_def)

lemma handled_by_mono:
  "handled_by s r \<Longrightarrow> set (srv_history s) \<subseteq> set (srv_history s') \<Longrightarrow> handled_by s' r"
  by (auto simp: handled_by_def)

subsection \<open>Each event keeps the invariant\<close>

lemma srv_inv_init: "srv_inv (server_init b out)"
  by (simp add: srv_inv_def server_init_def lock_inv_def active_def lock_tasks_def rwlock_new_def
      lock_modes_def reload_ok_def one_per_worker_def)

lemma srv_invI:
  assumes "lock_inv (srv_lock s)" and "lock_modes task_mode (srv_lock s)"
    and "mset (lock_tasks (srv_lock s)) = active s"
    and "srv_history s \<noteq> []" and "srv_workers s = WORKERS" and "reload_ok s"
    and "one_per_worker s"
    and "\<And>j. j < length (srv_reqs s) \<Longrightarrow> rq_worker (srv_reqs s ! j) < WORKERS"
    and "\<And>j. j < length (srv_reqs s) \<Longrightarrow> running_ok s j"
  shows "srv_inv s"
  using assms by (simp add: srv_inv_def)

lemma srv_invD:
  assumes "srv_inv s"
  shows "lock_inv (srv_lock s)" and "lock_modes task_mode (srv_lock s)"
    and "mset (lock_tasks (srv_lock s)) = active s"
    and "srv_history s \<noteq> []" and "srv_workers s = WORKERS" and "reload_ok s"
    and "one_per_worker s"
    and "\<And>j. j < length (srv_reqs s) \<Longrightarrow> rq_worker (srv_reqs s ! j) < WORKERS"
    and "\<And>j. j < length (srv_reqs s) \<Longrightarrow> running_ok s j"
  using assms by (auto simp: srv_inv_def)

lemma running_ok_same:
  assumes "srv_reqs s' ! i = srv_reqs s ! i" and "srv_lock s' = srv_lock s"
    and "srv_history s' = srv_history s"
  shows "running_ok s' i = running_ok s i"
  using assms by (cases "rq_phase (srv_reqs s ! i)") (simp_all add: running_ok_def handled_by_def)

lemma reload_ok_same:
  assumes "srv_reload s' = srv_reload s" and "srv_lock s' = srv_lock s"
    and "srv_history s' = srv_history s"
  shows "reload_ok s' = reload_ok s"
  using assms by (cases "srv_reload s") (simp_all add: reload_ok_def)

lemma one_per_worker_set_phase:
  assumes "one_per_worker s" and "i < length (srv_reqs s)"
    and "\<And>k. k < length (srv_reqs s) \<Longrightarrow> is_running (rq_phase (srv_reqs s ! k)) \<Longrightarrow>
           rq_worker (srv_reqs s ! k) \<noteq> rq_worker (srv_reqs s ! i)"
  shows "one_per_worker (s\<lparr>srv_reqs := set_phase i ph (srv_reqs s)\<rparr>)"
  unfolding one_per_worker_def
proof (intro allI impI)
  fix a c
  let ?rs = "set_phase i ph (srv_reqs s)"
  assume a: "a < length (srv_reqs (s\<lparr>srv_reqs := ?rs\<rparr>))" and c: "c < length (srv_reqs (s\<lparr>srv_reqs := ?rs\<rparr>))"
    and run: "is_running (rq_phase (srv_reqs (s\<lparr>srv_reqs := ?rs\<rparr>) ! a))
              \<and> is_running (rq_phase (srv_reqs (s\<lparr>srv_reqs := ?rs\<rparr>) ! c))
              \<and> rq_worker (srv_reqs (s\<lparr>srv_reqs := ?rs\<rparr>) ! a) = rq_worker (srv_reqs (s\<lparr>srv_reqs := ?rs\<rparr>) ! c)"
  show "a = c"
    using assms(1) assms(3) [of a] assms(3) [of c] a c run assms(2)
    unfolding one_per_worker_def
    by (cases "a = i"; cases "c = i") (auto simp: set_phase_def)
qed

lemma receive_inv:
  assumes "receive h p w s = Some s'" and "srv_inv s"
  shows "srv_inv s'"
proof -
  let ?r = "\<lparr>rq_headers = h, rq_prompt = p, rq_worker = w, rq_phase = Received\<rparr> :: 'a request"
  note inv = srv_invD [OF assms(2)]
  have w: "w < srv_workers s" and s': "s' = s\<lparr>srv_reqs := srv_reqs s @ [?r]\<rparr>"
    using assms(1) by (simp_all add: receive_def split: if_splits)
  have nth: "srv_reqs s' ! j = (if j < length (srv_reqs s) then srv_reqs s ! j else ?r)"
    if "j < length (srv_reqs s')" for j
    using that by (simp add: s' nth_append)
  show ?thesis
  proof (rule srv_invI)
    show "mset (lock_tasks (srv_lock s')) = active s'"
      using inv(3)
      by (intro task_mset_eqI) (simp_all add: count_active_Reloader count_active_Req s' nth_append less_Suc_eq)
    show "one_per_worker s'"
      using inv(7) by (simp add: one_per_worker_def s' nth_append)
    show "rq_worker (srv_reqs s' ! j) < WORKERS" if "j < length (srv_reqs s')" for j
      using inv(5,8) w nth [OF that] by auto
    show "running_ok s' j" if "j < length (srv_reqs s')" for j
    proof (cases "j < length (srv_reqs s)")
      case True
      then show ?thesis
        using inv(9) nth [OF that] running_ok_same [of s' j s] by (simp add: s')
    next
      case False
      then show ?thesis
        using nth [OF that] by (simp add: running_ok_def s')
    qed
    show "reload_ok s'"
      using inv(6) reload_ok_same [of s' s] by (simp add: s')
  qed (use inv in \<open>simp_all add: s'\<close>)
qed

lemma reject_inv:
  assumes "reject h e w s = Some s'" and "srv_inv s"
  shows "srv_inv s'"
proof -
  obtain out' where s': "s' = s\<lparr>srv_out := out', srv_rejected := srv_rejected s @ [(w, e)]\<rparr>"
    using assms(1) by (auto simp: reject_def split: if_splits)
  have same: "srv_lock s' = srv_lock s" "srv_reqs s' = srv_reqs s" "srv_history s' = srv_history s"
    "srv_workers s' = srv_workers s" "srv_reload s' = srv_reload s"
    by (simp_all add: s')
  then have "active s' = active s" "reload_ok s' = reload_ok s" "one_per_worker s' = one_per_worker s"
    "\<And>j. running_ok s' j = running_ok s j"
    by (simp_all add: active_def reload_ok_def one_per_worker_def running_ok_def handled_by_def
        cong: reload.case_cong phase.case_cong)
  then show ?thesis using assms(2) same unfolding srv_inv_def by auto
qed

lemma receive_body_inv: "receive_body h body w s = Some s' \<Longrightarrow> srv_inv s \<Longrightarrow> srv_inv s'"
  by (auto simp: receive_body_def split: sum.splits intro: receive_inv reject_inv)

lemma start_inv:
  assumes "start i s = Some s'" and "srv_inv s"
  shows "srv_inv s'"
proof -
  note inv = srv_invD [OF assms(2)]
  have i: "i < length (srv_reqs s)" and rcv: "rq_phase (srv_reqs s ! i) = Received"
    and s': "s' = s\<lparr>srv_reqs := set_phase i Waiting (srv_reqs s),
                    srv_out := snd (middleware_enter (rq_headers (srv_reqs s ! i)) (srv_out s)),
                    srv_lock := acquire (Req i) Read (srv_lock s)\<rparr>"
    using assms(1) by (auto simp: start_def split: if_splits phase.splits)
  show ?thesis
  proof (rule srv_invI)
    show "mset (lock_tasks (srv_lock s')) = active s'"
      using inv(3) i rcv
      by (intro task_mset_eqI) (auto simp: s' mset_tasks_acquire count_active_Req count_active_Reloader)
    show "lock_modes task_mode (srv_lock s')"
      using lock_modes_acquire [OF inv(2), of "Req i"] by (simp add: s')
    show "reload_ok s'"
      using inv(6) by (auto simp: reload_ok_def s' holds_acquire split: reload.split)
    show "one_per_worker s'"
      using inv(7) i by (simp add: one_per_worker_def s')
    show "rq_worker (srv_reqs s' ! j) < WORKERS" if "j < length (srv_reqs s')" for j
      using inv(8) that i by (simp add: s')
    show "running_ok s' j" if "j < length (srv_reqs s')" for j
      using inv(9) [of j] that i
      by (auto simp: running_ok_def handled_by_def s' holds_acquire split: phase.split)
  qed (use inv in \<open>simp_all add: s' acquire_inv\<close>)
qed

lemma resume_inv:
  assumes "resume i s = Some s'" and "srv_inv s"
  shows "srv_inv s'"
proof -
  note inv = srv_invD [OF assms(2)]
  have i: "i < length (srv_reqs s)" and free: "\<not> worker_busy s (rq_worker (srv_reqs s ! i))"
    and h: "holds (srv_lock s) (Req i) Read" and wt: "rq_phase (srv_reqs s ! i) = Waiting"
    and s': "s' = s\<lparr>srv_reqs := set_phase i (Running (rw_value (srv_lock s))) (srv_reqs s)\<rparr>"
    using assms(1) by (auto simp: resume_def split: if_splits phase.splits)
  have v: "rw_value (srv_lock s) = last (srv_history s)"
    by (rule reader_sees_committed [OF assms(2) h])
  show ?thesis
  proof (rule srv_invI)
    show "mset (lock_tasks (srv_lock s')) = active s'"
      using inv(3) i wt
      by (intro task_mset_eqI) (auto simp: s' count_active_Req count_active_Reloader)
    show "reload_ok s'"
      using inv(6) reload_ok_same [of s' s] by (simp add: s')
    show "one_per_worker s'"
      using one_per_worker_set_phase [OF inv(7) i] free unfolding worker_busy_iff s' by blast
    show "rq_worker (srv_reqs s' ! j) < WORKERS" if "j < length (srv_reqs s')" for j
      using inv(8) that i by (simp add: s')
    show "running_ok s' j" if "j < length (srv_reqs s')" for j
    proof (cases "j = i")
      case True
      then show ?thesis using i h v by (simp add: running_ok_def s')
    next
      case False
      then show ?thesis
        using inv(9) [of j] that i running_ok_same [of s' j s] by (simp add: s')
    qed
  qed (use inv in \<open>simp_all add: s'\<close>)
qed

lemma finish_inv:
  assumes "finish i s = Some s'" and "srv_inv s"
  shows "srv_inv s'"
proof -
  note inv = srv_invD [OF assms(2)]
  obtain b r out' where i: "i < length (srv_reqs s)" and rn: "rq_phase (srv_reqs s ! i) = Running b"
    and r: "middleware_leave (predict_handler b (rq_prompt (srv_reqs s ! i))) (srv_out s) = (r, out')"
    and s': "s' = s\<lparr>srv_reqs := set_phase i (phase_of r) (srv_reqs s), srv_out := out',
                    srv_lock := release (Req i) Read (srv_lock s)\<rparr>"
    using assms(1) by (auto simp: finish_def split: if_splits phase.splits prod.splits)
  have h: "holds (srv_lock s) (Req i) Read" and b: "b = last (srv_history s)"
    using running_holds [OF assms(2) i rn] by simp_all
  have fin: "finished (phase_of r)" "\<not> in_lock (phase_of r)" "\<not> is_running (phase_of r)"
    by (cases r; simp)+
  have res: "phase_of (fst (predict_handler b (rq_prompt (srv_reqs s ! i)) [])) = phase_of r"
    using r middleware_leave_result [of "predict_handler b (rq_prompt (srv_reqs s ! i))" "srv_out s"]
    by (simp add: handler_result_indep [of b _ "srv_out s"])
  have notw: "\<not> holds (srv_lock s) Reloader Write"
    using no_running_while_writing [OF assms(2) _ i] rn by auto
  show ?thesis
  proof (rule srv_invI)
    show "lock_inv (srv_lock s')" using release_inv [OF inv(1) h] by (simp add: s')
    show "lock_modes task_mode (srv_lock s')" using lock_modes_release [OF inv(2)] by (simp add: s')
    show "mset (lock_tasks (srv_lock s')) = active s'"
      using inv(3) i rn fin(2)
      by (intro task_mset_eqI) (auto simp: s' mset_tasks_release [OF h] count_active_Req count_active_Reloader)
    show "reload_ok s'"
      using inv(6) notw by (auto simp: reload_ok_def s' split: reload.split)
    show "one_per_worker s'"
      using inv(7) i fin(3) by (auto simp: one_per_worker_def s')
    show "rq_worker (srv_reqs s' ! j) < WORKERS" if "j < length (srv_reqs s')" for j
      using inv(8) that i by (simp add: s')
    show "running_ok s' j" if "j < length (srv_reqs s')" for j
    proof (cases "j = i")
      case True
      have "handled_by s' (srv_reqs s' ! i)"
        unfolding handled_by_def using i res b inv(4) by (auto simp: s')
      with True i fin show ?thesis by (cases r) (simp_all add: running_ok_def s')
    next
      case False
      then show ?thesis
        using inv(9) [of j] that i
        by (auto simp: running_ok_def handled_by_def s' holds_release split: phase.split)
    qed
  qed (use inv in \<open>simp_all add: s'\<close>)
qed

lemma reload_request_inv:
  assumes "reload_request b' s = Some s'" and "srv_inv s"
  shows "srv_inv s'"
proof -
  note inv = srv_invD [OF assms(2)]
  have idle: "srv_reload s = Idle"
    and s': "s' = s\<lparr>srv_reload := Requested b', srv_lock := acquire Reloader Write (srv_lock s)\<rparr>"
    using assms(1) by (auto simp: reload_request_def split: reload.splits)
  show ?thesis
  proof (rule srv_invI)
    show "lock_inv (srv_lock s')" using acquire_inv [OF inv(1)] by (simp add: s')
    show "lock_modes task_mode (srv_lock s')"
      using lock_modes_acquire [OF inv(2), of Reloader] by (simp add: s')
    show "mset (lock_tasks (srv_lock s')) = active s'"
      using inv(3) idle
      by (intro task_mset_eqI) (auto simp: s' mset_tasks_acquire count_active_Req count_active_Reloader)
    show "reload_ok s'" using inv(6) idle by (simp add: reload_ok_def s')
    show "running_ok s' j" if "j < length (srv_reqs s')" for j
      using inv(9) [of j] that
      by (auto simp: running_ok_def handled_by_def s' holds_acquire split: phase.split)
  qed (use inv in \<open>simp_all add: s' one_per_worker_def\<close>)
qed

lemma reload_swap_inv:
  assumes "reload_swap s = Some s'" and "srv_inv s"
  shows "srv_inv s'"
proof -
  note inv = srv_invD [OF assms(2)]
  obtain b' where rq: "srv_reload s = Requested b'" and w: "holds (srv_lock s) Reloader Write"
    and s': "s' = s\<lparr>srv_reload := Swapping b',
                    srv_lock := write_with Reloader (\<lambda>b. b\<lparr>model := model b'\<rparr>) (srv_lock s)\<rparr>"
    using assms(1) by (auto simp: reload_swap_def split: reload.splits if_splits)
  show ?thesis
  proof (rule srv_invI)
    show "lock_inv (srv_lock s')" using write_with_inv [OF inv(1)] by (simp add: s')
    show "mset (lock_tasks (srv_lock s')) = active s'"
      using inv(3) rq by (intro task_mset_eqI) (auto simp: s' count_active_Req count_active_Reloader)
    show "reload_ok s'" using w by (simp add: reload_ok_def s')
    show "running_ok s' j" if "j < length (srv_reqs s')" for j
      using inv(9) [of j] that no_running_while_writing [OF assms(2) w, of j]
      by (auto simp: running_ok_def handled_by_def s' split: phase.split)
  qed (use inv in \<open>simp_all add: s' one_per_worker_def\<close>)
qed

lemma reload_done_inv:
  assumes "reload_done s = Some s'" and "srv_inv s"
  shows "srv_inv s'"
proof -
  note inv = srv_invD [OF assms(2)]
  obtain b' where sw: "srv_reload s = Swapping b'"
    and s': "s' = s\<lparr>srv_reload := Idle, srv_history := srv_history s @ [b'],
                    srv_lock := release Reloader Write
                      (write_with Reloader (\<lambda>b. b\<lparr>tokenizer := tokenizer b', device := device b'\<rparr>)
                         (srv_lock s))\<rparr>"
    using assms(1) by (auto simp: reload_done_def split: reload.splits)
  let ?f = "\<lambda>b. b\<lparr>tokenizer := tokenizer b', device := device b'\<rparr>"
  have w: "holds (srv_lock s) Reloader Write" and m: "model (rw_value (srv_lock s)) = model b'"
    using inv(6) sw by (simp_all add: reload_ok_def)
  have v: "(rw_value (srv_lock s))\<lparr>tokenizer := tokenizer b', device := device b'\<rparr> = b'"
    using m by (simp add: bert.equality)
  show ?thesis
  proof (rule srv_invI)
    show "lock_inv (srv_lock s')"
      using release_inv [OF write_with_inv [OF inv(1)]] w by (simp add: s')
    show "lock_modes task_mode (srv_lock s')"
      using lock_modes_release [of task_mode "write_with Reloader ?f (srv_lock s)"] inv(2)
      by (simp add: s')
    show "mset (lock_tasks (srv_lock s')) = active s'"
    proof (rule task_mset_eqI)
      have "mset (lock_tasks (srv_lock s')) = mset (lock_tasks (srv_lock s)) - {#Reloader#}"
        using mset_tasks_release [of "write_with Reloader ?f (srv_lock s)" Reloader Write] w
        by (simp add: s')
      then show "count (mset (lock_tasks (srv_lock s'))) (Req j) = count (active s') (Req j)"
        "count (mset (lock_tasks (srv_lock s'))) Reloader = count (active s') Reloader" for j
        using inv(3) sw by (auto simp: s' count_active_Req count_active_Reloader)
    qed
    show "reload_ok s'"
      using v by (simp add: reload_ok_def s')
    show "running_ok s' j" if "j < length (srv_reqs s')" for j
    proof -
      have "running_ok s j" "\<not> is_running (rq_phase (srv_reqs s ! j))"
        using inv(9) [of j] that no_running_while_writing [OF assms(2) w, of j] by (simp_all add: s')
      then show ?thesis
        using handled_by_mono [of s "srv_reqs s ! j" s']
        by (cases "rq_phase (srv_reqs s ! j)") (auto simp: running_ok_def s')
    qed
  qed (use inv in \<open>simp_all add: s' one_per_worker_def\<close>)
qed

lemma step_inv: "step e s = Some s' \<Longrightarrow> srv_inv s \<Longrightarrow> srv_inv s'"
  by (cases e)
    (auto intro: receive_body_inv receive_inv start_inv resume_inv finish_inv reload_request_inv reload_swap_inv
      reload_done_inv)

lemma srv_reach_inv: "srv_reach s \<Longrightarrow> srv_inv s"
  by (induction rule: srv_reach.induct) (auto intro: srv_inv_init step_inv)

lemma run_reach: "srv_reach s \<Longrightarrow> run es s = Some s' \<Longrightarrow> srv_reach s'"
proof (induction es arbitrary: s)
  case Nil
  then show ?case by simp
next
  case (Cons e es)
  then obtain s1 where "step e s = Some s1" and "run es s1 = Some s'"
    by (cases "step e s") simp_all
  with Cons show ?case by (blast intro: srv_next)
qed

subsection \<open>Readers do not wait for readers\<close>

lemma held_permits_reads:
  "\<forall>h \<in> set hs. snd h = Read \<Longrightarrow> held_permits hs = length hs"
  by (induction hs) auto

lemma size_active_idle:
  "srv_reload s = Idle \<Longrightarrow> size (active s) \<le> length (srv_reqs s)"
proof -
  let ?xs = "filter (\<lambda>i. in_lock (rq_phase (srv_reqs s ! i))) [0..<length (srv_reqs s)]"
  assume idle: "srv_reload s = Idle"
  have "size (active s) = length ?xs"
    by (simp only: active_def idle reload.case add_0_right size_mset length_map)
  also have "\<dots> \<le> length [0..<length (srv_reqs s)]" by (rule length_filter_le)
  finally show ?thesis by simp
qed

lemma idle_tasks_are_requests:
  assumes "srv_inv s" and "srv_reload s = Idle" and "t \<in> set (lock_tasks (srv_lock s))"
  shows "\<exists>i. t = Req i \<and> i < length (srv_reqs s) \<and> in_lock (rq_phase (srv_reqs s ! i))"
proof -
  have "t \<in># mset (lock_tasks (srv_lock s))" using assms(3) by simp
  then have "0 < count (active s) t"
    using srv_invD(3) [OF assms(1)] by simp
  then show ?thesis
    using assms(2) by (cases t) (auto simp: count_active_Req count_active_Reloader split: if_splits)
qed

lemma idle_no_waiters:
  assumes "srv_inv s" and "srv_reload s = Idle" and "length (srv_reqs s) \<le> max_reads"
  shows "rw_waiters (srv_lock s) = []"
proof (rule ccontr)
  let ?l = "srv_lock s"
  assume ne: "rw_waiters ?l \<noteq> []"
  note inv = srv_invD [OF assms(1)]
  have modes: "snd h = task_mode (fst h)" if "h \<in> set (rw_holders ?l @ rw_waiters ?l)" for h
    using inv(2) that by (simp add: lock_modes_def)
  have reads: "snd h = Read" if "h \<in> set (rw_holders ?l @ rw_waiters ?l)" for h
  proof -
    have "fst h \<in> set (lock_tasks ?l)" using that by (force simp: lock_tasks_def)
    then obtain i where "fst h = Req i" using idle_tasks_are_requests [OF assms(1,2)] by blast
    then show ?thesis using modes [OF that] by simp
  qed
  have "rw_permits ?l < weight (snd (hd (rw_waiters ?l)))"
    using inv(1) ne by (simp add: lock_inv_def)
  also have "\<dots> = 1" using reads [of "hd (rw_waiters ?l)"] ne by simp
  finally have "rw_permits ?l = 0" by simp
  then have "held_permits (rw_holders ?l) = max_reads"
    using inv(1) by (simp add: lock_inv_def)
  then have "length (rw_holders ?l) = max_reads"
    using held_permits_reads [of "rw_holders ?l"] reads by simp
  then have "max_reads < length (lock_tasks ?l)"
    using ne by (simp add: lock_tasks_def)
  also have "length (lock_tasks ?l) = size (active s)"
    using inv(3) by (metis size_mset)
  also have "\<dots> \<le> length (srv_reqs s)" by (rule size_active_idle [OF assms(2)])
  finally show False using assms(3) by simp
qed

lemma idle_waiting_holds:
  assumes "srv_inv s" and "srv_reload s = Idle" and "length (srv_reqs s) \<le> max_reads"
    and "i < length (srv_reqs s)" and "rq_phase (srv_reqs s ! i) = Waiting"
  shows "holds (srv_lock s) (Req i) Read"
proof -
  note inv = srv_invD [OF assms(1)]
  have "count (active s) (Req i) = 1" using assms(4,5) by (simp add: count_active_Req)
  then have "Req i \<in> set (lock_tasks (srv_lock s))"
    using inv(3) by (metis count_greater_zero_iff in_multiset_in_set zero_less_one)
  then obtain m where h: "(Req i, m) \<in> set (rw_holders (srv_lock s))"
    using idle_no_waiters [OF assms(1-3)] by (auto simp: lock_tasks_def)
  then have "snd (Req i, m) = task_mode (fst (Req i, m))"
    using inv(2) unfolding lock_modes_def by (metis Un_iff set_append)
  then have "m = Read" by simp
  with h show ?thesis by (simp add: holds_def)
qed

subsection \<open>Progress\<close>

lemma finish_enabled:
  assumes "i < length (srv_reqs s)" and "rq_phase (srv_reqs s ! i) = Running b"
  obtains s' where "finish i s = Some s'" and "finished (rq_phase (srv_reqs s' ! i))"
    and "srv_reload s' = srv_reload s" and "length (srv_reqs s') = length (srv_reqs s)"
    and "\<And>k. k \<noteq> i \<Longrightarrow> srv_reqs s' ! k = srv_reqs s ! k"
proof -
  obtain r out' where r: "middleware_leave (predict_handler b (rq_prompt (srv_reqs s ! i))) (srv_out s) = (r, out')"
    by fastforce
  have "finished (phase_of r)" by (cases r) simp_all
  then show ?thesis
    using that [of "s\<lparr>srv_reqs := set_phase i (phase_of r) (srv_reqs s), srv_out := out',
                      srv_lock := release (Req i) Read (srv_lock s)\<rparr>"] assms r
    by (simp add: finish_def)
qed

lemma start_enabled:
  assumes "i < length (srv_reqs s)" and "rq_phase (srv_reqs s ! i) = Received"
    and "\<not> worker_busy s (rq_worker (srv_reqs s ! i))"
  obtains s' where "start i s = Some s'" and "rq_phase (srv_reqs s' ! i) = Waiting"
    and "srv_reload s' = srv_reload s" and "length (srv_reqs s') = length (srv_reqs s)"
    and "\<And>k. k \<noteq> i \<Longrightarrow> srv_reqs s' ! k = srv_reqs s ! k"
    and "rq_worker (srv_reqs s' ! i) = rq_worker (srv_reqs s ! i)"
  using assms that by (simp add: start_def)

lemma resume_enabled:
  assumes "i < length (srv_reqs s)" and "rq_phase (srv_reqs s ! i) = Waiting"
    and "\<not> worker_busy s (rq_worker (srv_reqs s ! i))" and "holds (srv_lock s) (Req i) Read"
  obtains s' where "resume i s = Some s'" and "is_running (rq_phase (srv_reqs s' ! i))"
    and "length (srv_reqs s') = length (srv_reqs s)"
  using assms that by (simp add: resume_def)

lemma worker_busy_same:
  assumes "length (srv_reqs s') = length (srv_reqs s)"
    and "\<And>k. k \<noteq> i \<Longrightarrow> srv_reqs s' ! k = srv_reqs s ! k"
    and "\<not> is_running (rq_phase (srv_reqs s' ! i))" and "\<not> worker_busy s w"
  shows "\<not> worker_busy s' w"
  using assms unfolding worker_busy_iff by metis

lemma free_after_finish:
  assumes "srv_inv s" and "j < length (srv_reqs s)" and "is_running (rq_phase (srv_reqs s ! j))"
    and "length (srv_reqs s') = length (srv_reqs s)"
    and "\<And>k. k \<noteq> j \<Longrightarrow> srv_reqs s' ! k = srv_reqs s ! k"
    and "\<not> is_running (rq_phase (srv_reqs s' ! j))"
    and "rq_worker (srv_reqs s ! j) = w"
  shows "\<not> worker_busy s' w"
proof
  assume "worker_busy s' w"
  then obtain k where k: "k < length (srv_reqs s)" "rq_worker (srv_reqs s' ! k) = w"
    "is_running (rq_phase (srv_reqs s' ! k))"
    using assms(4) unfolding worker_busy_iff by auto
  then have "k \<noteq> j" using assms(6) by auto
  with k assms(5) have "rq_worker (srv_reqs s ! k) = w" "is_running (rq_phase (srv_reqs s ! k))" by simp_all
  with srv_invD(7) [OF assms(1)] assms(2,3,7) k(1) \<open>k \<noteq> j\<close> show False
    unfolding one_per_worker_def by blast
qed

lemma serve_from_free:
  assumes "srv_reach s" and "srv_reload s = Idle" and "length (srv_reqs s) \<le> max_reads"
    and "i < length (srv_reqs s)" and "rq_phase (srv_reqs s ! i) = Received"
    and "\<not> worker_busy s (rq_worker (srv_reqs s ! i))"
  shows "\<exists>s'. run [Start i, Resume i, Finish i] s = Some s' \<and> finished (rq_phase (srv_reqs s' ! i))"
proof -
  obtain s1 where s1: "start i s = Some s1" "rq_phase (srv_reqs s1 ! i) = Waiting"
    "srv_reload s1 = srv_reload s" "length (srv_reqs s1) = length (srv_reqs s)"
    "\<And>k. k \<noteq> i \<Longrightarrow> srv_reqs s1 ! k = srv_reqs s ! k"
    "rq_worker (srv_reqs s1 ! i) = rq_worker (srv_reqs s ! i)"
    using start_enabled [OF assms(4-6)] by metis
  have r1: "srv_reach s1" using srv_next [of s "Start i" s1] assms(1) s1(1) by simp
  have h: "holds (srv_lock s1) (Req i) Read"
    using idle_waiting_holds [OF srv_reach_inv [OF r1]] s1 assms(2-4) by simp
  have free: "\<not> worker_busy s1 (rq_worker (srv_reqs s1 ! i))"
    using worker_busy_same [of s1 s i] s1 assms(6) by simp
  obtain s2 where s2: "resume i s1 = Some s2" "is_running (rq_phase (srv_reqs s2 ! i))"
    "length (srv_reqs s2) = length (srv_reqs s1)"
    using resume_enabled [OF _ s1(2) free h] s1(4) assms(4) by metis
  obtain b where b: "rq_phase (srv_reqs s2 ! i) = Running b"
    using s2(2) by (cases "rq_phase (srv_reqs s2 ! i)") simp_all
  obtain s3 where s3: "finish i s2 = Some s3" "finished (rq_phase (srv_reqs s3 ! i))"
    using finish_enabled [of i s2 b] b s2(3) s1(4) assms(4) by metis
  show ?thesis using s1(1) s2(1) s3 by simp
qed

lemma running_on_free: "\<not> worker_busy s w \<Longrightarrow> running_on s w = []"
  by (auto simp: running_on_def worker_busy_iff filter_empty_conv)

lemma running_on_single:
  assumes "one_per_worker s" and "j < length (srv_reqs s)" and "rq_worker (srv_reqs s ! j) = w"
    and "is_running (rq_phase (srv_reqs s ! j))"
  shows "running_on s w = [j]"
proof -
  have "set (running_on s w) = set [j]"
    using assms unfolding one_per_worker_def running_on_def by auto
  moreover have "sorted (running_on s w)"
    unfolding running_on_def by (rule sorted_wrt_filter) simp
  moreover have "distinct (running_on s w)" by (simp add: running_on_def)
  ultimately show ?thesis by (simp add: sorted_distinct_set_unique)
qed

lemma finished_not_in_lock:
  assumes "srv_inv s" and "i < length (srv_reqs s)" and "finished (rq_phase (srv_reqs s ! i))"
  shows "Req i \<notin> set (lock_tasks (srv_lock s))"
proof -
  have "count (active s) (Req i) = 0"
    using assms(2,3) by (cases "rq_phase (srv_reqs s ! i)") (simp_all add: count_active_Req)
  then show ?thesis
    using srv_invD(3) [OF assms(1)] by (metis count_eq_zero_iff in_multiset_in_set)
qed

subsection \<open>A requested reload is eventually granted the write guard\<close>

lemma run_append: "run (es @ fs) s = Option.bind (run es s) (run fs)"
  by (induction es arbitrary: s) (auto split: Option.bind_split)

lemma release_toward_writer:
  assumes "lock_modes task_mode l" and "holds l t m"
  shows "holds (release t m l) Reloader Write
         \<or> length (rw_holders (release t m l)) + 2 * ahead (release t m l)
             < length (rw_holders l) + 2 * ahead l"
proof -
  obtain gs where w: "rw_waiters l = gs @ rw_waiters (release t m l)"
    and h: "rw_holders (release t m l) = rev gs @ remove1 (t, m) (rw_holders l)"
    by (rule release_parts)
  show ?thesis
  proof (cases "\<forall>x \<in> set gs. fst x \<noteq> Reloader")
    case True
    then have "ahead l = length gs + ahead (release t m l)"
      by (simp add: ahead_def w)
    moreover have "length (rw_holders l) = Suc (length (remove1 (t, m) (rw_holders l)))"
      using assms(2) by (simp add: holds_def length_remove1)
        (metis Suc_pred length_pos_if_in_set)
    ultimately show ?thesis by (simp add: h)
  next
    case False
    then obtain m' where g: "(Reloader, m') \<in> set gs" by auto
    then have "m' = Write"
      using assms(1) unfolding lock_modes_def w by (metis Un_iff fst_conv set_append snd_conv task_mode.simps(2))
    with g show ?thesis by (simp add: holds_def h)
  qed
qed

lemma resume_keeps:
  "resume i s = Some s' \<Longrightarrow> srv_lock s' = srv_lock s \<and> srv_reload s' = srv_reload s
     \<and> length (srv_reqs s') = length (srv_reqs s)
     \<and> (\<exists>b. rq_phase (srv_reqs s' ! i) = Running b) \<and> i < length (srv_reqs s)"
  by (auto simp: resume_def split: if_splits phase.splits)

lemma finish_toward_reload:
  assumes "srv_reach s" and "srv_reload s = Requested b'"
    and "k < length (srv_reqs s)" and "rq_phase (srv_reqs s ! k) = Running b"
  shows "\<exists>s'. finish k s = Some s' \<and> srv_reach s' \<and> srv_reload s' = Requested b'
              \<and> (holds (srv_lock s') Reloader Write \<or> reload_measure s' < reload_measure s)"
proof -
  have inv: "srv_inv s" by (rule srv_reach_inv [OF assms(1)])
  obtain s' where f: "finish k s = Some s'" and r: "srv_reload s' = srv_reload s"
    using finish_enabled [OF assms(3,4)] by metis
  have l: "srv_lock s' = release (Req k) Read (srv_lock s)"
    using f assms(3,4) by (auto simp: finish_def split: prod.splits)
  have "holds (srv_lock s) (Req k) Read" using running_holds [OF inv assms(3,4)] by simp
  from release_toward_writer [OF srv_invD(2) [OF inv] this]
  have "holds (srv_lock s') Reloader Write \<or> reload_measure s' < reload_measure s"
    by (simp add: l reload_measure_def)
  moreover have "srv_reach s'" using srv_next [of s "Finish k" s'] assms(1) f by simp
  ultimately show ?thesis using f r assms(2) by auto
qed

lemma waiting_reloader_behind_holder:
  assumes "srv_inv s" and "srv_reload s = Requested b'" and "\<not> holds (srv_lock s) Reloader Write"
  obtains j where "j < length (srv_reqs s)" and "in_lock (rq_phase (srv_reqs s ! j))"
    and "holds (srv_lock s) (Req j) Read"
proof -
  let ?l = "srv_lock s"
  note inv = srv_invD [OF assms(1)]
  have mode: "snd h = task_mode (fst h)" if "h \<in> set (rw_holders ?l @ rw_waiters ?l)" for h
    using inv(2) that by (simp add: lock_modes_def)
  have "count (active s) Reloader = 1" using assms(2) by (simp add: count_active_Reloader)
  then have "Reloader \<in> set (lock_tasks ?l)"
    using inv(3) by (metis count_greater_zero_iff in_multiset_in_set zero_less_one)
  then have "\<exists>m. (Reloader, m) \<in> set (rw_holders ?l @ rw_waiters ?l)"
    unfolding lock_tasks_def by (metis (no_types, lifting) fst_conv imageE list.set_map prod.collapse)
  then obtain m where rm: "(Reloader, m) \<in> set (rw_holders ?l @ rw_waiters ?l)" by blast
  then have "m = Write" using mode [OF rm] by simp
  with rm assms(3) have "(Reloader, Write) \<in> set (rw_waiters ?l)" by (auto simp: holds_def)
  then have "rw_holders ?l \<noteq> []" using waiters_have_holders [OF inv(1)] by fastforce
  then obtain h where h: "h \<in> set (rw_holders ?l)" by (metis list.set_sel(1))
  have "fst h \<noteq> Reloader"
  proof
    assume "fst h = Reloader"
    then have "h = (Reloader, Write)" using mode [of h] h by (cases h) simp
    with h assms(3) show False by (simp add: holds_def)
  qed
  then obtain j where j: "fst h = Req j" by (cases "fst h") auto
  then have hr: "h = (Req j, Read)" using mode [of h] h by (cases h) auto
  have "Req j \<in> set (lock_tasks ?l)" using h j by (force simp: lock_tasks_def)
  then have "0 < count (active s) (Req j)"
    using inv(3) by (metis count_greater_zero_iff in_multiset_in_set)
  then have "j < length (srv_reqs s)" "in_lock (rq_phase (srv_reqs s ! j))"
    by (simp_all add: count_active_Req split: if_splits)
  moreover have "holds ?l (Req j) Read" using h hr by (simp add: holds_def)
  ultimately show ?thesis by (rule that)
qed

lemma holder_progress:
  assumes "srv_reach s" and "srv_reload s = Requested b'"
    and j: "j < length (srv_reqs s)" "in_lock (rq_phase (srv_reqs s ! j))"
    and hj: "holds (srv_lock s) (Req j) Read"
  obtains pre k s1 s2 where "run pre s = Some s1" and "finish k s1 = Some s2" and "srv_reach s2"
    and "srv_reload s2 = Requested b'"
    and "holds (srv_lock s2) Reloader Write \<or> reload_measure s2 < reload_measure s"
proof (cases "is_running (rq_phase (srv_reqs s ! j))")
  case True
  then obtain b where "rq_phase (srv_reqs s ! j) = Running b"
    by (cases "rq_phase (srv_reqs s ! j)") simp_all
  then show ?thesis
    using finish_toward_reload [OF assms(1,2) j(1)] that [of "[]" s j] by auto
next
  case notrun: False
  then have wt: "rq_phase (srv_reqs s ! j) = Waiting"
    using j(2) by (cases "rq_phase (srv_reqs s ! j)") simp_all
  show ?thesis
  proof (cases "worker_busy s (rq_worker (srv_reqs s ! j))")
    case True
    then obtain k b where "k < length (srv_reqs s)" "rq_phase (srv_reqs s ! k) = Running b"
      unfolding worker_busy_iff by (metis is_running.elims(2))
    then show ?thesis
      using finish_toward_reload [OF assms(1,2)] that [of "[]" s k] by fastforce
  next
    case False
    obtain s1 where s1: "resume j s = Some s1"
      using resume_enabled [OF j(1) wt False hj] by metis
    note k1 = resume_keeps [OF s1]
    then obtain b where b: "rq_phase (srv_reqs s1 ! j) = Running b" by blast
    have r1: "srv_reach s1" using srv_next [of s "Resume j" s1] assms(1) s1 by simp
    have m: "reload_measure s1 = reload_measure s" by (simp add: reload_measure_def k1)
    show ?thesis
      using finish_toward_reload [OF r1 _ _ b] k1 assms(2) j(1) m s1 that [of "[Resume j]" s1 j]
      by auto
  qed
qed

lemma reload_gets_guard:
  assumes "srv_reach s" and "srv_reload s = Requested b'"
  shows "\<exists>es s'. run es s = Some s' \<and> srv_reach s' \<and> srv_reload s' = Requested b'
                 \<and> holds (srv_lock s') Reloader Write"
  using assms
proof (induction "reload_measure s" arbitrary: s rule: less_induct)
  case less
  show ?case
  proof (cases "holds (srv_lock s) Reloader Write")
    case True
    then show ?thesis using less.prems by (intro exI [of _ "[]"]) auto
  next
    case False
    obtain j where "j < length (srv_reqs s)" "in_lock (rq_phase (srv_reqs s ! j))"
      "holds (srv_lock s) (Req j) Read"
      by (rule waiting_reloader_behind_holder [OF srv_reach_inv [OF less.prems(1)] less.prems(2) False])
    then obtain pre k s1 s2 where p: "run pre s = Some s1" "finish k s1 = Some s2" "srv_reach s2"
      "srv_reload s2 = Requested b'"
      and progress: "holds (srv_lock s2) Reloader Write \<or> reload_measure s2 < reload_measure s"
      by (rule holder_progress [OF less.prems])
    show ?thesis
    proof (cases "holds (srv_lock s2) Reloader Write")
      case True
      then show ?thesis using p by (intro exI [of _ "pre @ [Finish k]"]) (auto simp: run_append)
    next
      case False
      with progress p obtain es s' where "run es s2 = Some s'" "srv_reach s'"
        "srv_reload s' = Requested b'" "holds (srv_lock s') Reloader Write"
        using less.hyps [of s2] by blast
      then show ?thesis using p by (intro exI [of _ "pre @ Finish k # es"]) (auto simp: run_append)
    qed
  qed
qed

end
