(* ===== verification/Dispatch_Props.thy ===== *)
theory Dispatch_Props
  imports Dispatch_Safety
begin

text \<open>
  The properties of the concurrent server (theory Dispatch), derived from the invariant of
  theory Dispatch_Safety, each with a witness: a concrete interleaving of requests and
  reloads on the small model \<open>tiny_bert\<close>, evaluated by the simplifier.
\<close>

lemmas scenario_simps = server_init_def receive_def start_def resume_def finish_def worker_busy_def
  set_phase_def rwlock_new_def acquire_def holds_def max_reads_value WORKERS_def middleware_leave_apply
  predict_handler_apply release_def middleware_enter_def println_def payload_size_def
  reload_request_def reload_swap_def reload_done_def write_with_def

lemmas tiny_predict_simps = predict_def encode_def tiny_bert_def tiny_bert'_def toy_bert_def toy_tokenizer_def
  tiny_config_def minilm_config_def toy_forward_def Tokenizer.truncate_def post_process_def pad_def
  tensor_new_def unsqueeze_def zeros_like_def io_bind_def io_lift_def io_return_def to_vec3_def
  row_slice_def numeral_2_eq_2 failing_tokenizer_bert_def

text \<open>
  C2. Read/write exclusion on the served model: while the reloader is replacing the model
  (between its first write and its release), it is the only holder of the lock and no
  request is running the handler.
\<close>

theorem reload_excludes_requests:
  assumes "srv_reach s" and "srv_reload s = Swapping b'"
  shows "rw_holders (srv_lock s) = [(Reloader, Write)]
         \<and> (\<forall>i < length (srv_reqs s). \<not> is_running (rq_phase (srv_reqs s ! i)))"
proof -
  have inv: "srv_inv s" by (rule srv_reach_inv [OF assms(1)])
  then have w: "holds (srv_lock s) Reloader Write"
    using assms(2) by (simp add: srv_inv_def reload_ok_def)
  show ?thesis
    using write_holder_alone [OF srv_invD(1) [OF inv] w] no_running_while_writing [OF inv w] by blast
qed

theorem reload_excludes_requests_witness:
  "\<exists>s. run [Receive [] \<lparr>prompt_text = ''a''\<rparr> 0, ReloadRequest tiny_bert', ReloadSwap]
              (server_init tiny_bert []) = Some s
       \<and> rw_holders (srv_lock s) = [(Reloader, Write)] \<and> \<not> is_running (rq_phase (srv_reqs s ! 0))"
proof -
  let ?s = "the (run [Receive [] \<lparr>prompt_text = ''a''\<rparr> 0, ReloadRequest tiny_bert', ReloadSwap]
                   (server_init tiny_bert []))"
  have r: "run [Receive [] \<lparr>prompt_text = ''a''\<rparr> 0, ReloadRequest tiny_bert', ReloadSwap]
             (server_init tiny_bert []) = Some ?s"
    by (simp add: scenario_simps)
  have "srv_reach ?s" by (rule run_reach [OF srv_init r])
  moreover have "srv_reload ?s = Swapping tiny_bert'" by (simp add: scenario_simps)
  moreover have "0 < length (srv_reqs ?s)" by (simp add: scenario_simps)
  ultimately show ?thesis
    using reload_excludes_requests [of ?s tiny_bert'] r by blast
qed

text \<open>
  C3. No torn snapshot: a request that runs the handler reads the model value held by the
  lock, and that value is the last committed model (the one loaded at start-up or the last
  completed reload), never the half-replaced model of a reload in progress.
\<close>

theorem running_reads_committed:
  assumes "srv_reach s" and "i < length (srv_reqs s)" and "rq_phase (srv_reqs s ! i) = Running b"
  shows "b = last (srv_history s) \<and> b = rw_value (srv_lock s)"
proof -
  have inv: "srv_inv s" by (rule srv_reach_inv [OF assms(1)])
  from running_holds [OF inv assms(2,3)]
  have "holds (srv_lock s) (Req i) Read" and "b = last (srv_history s)" by simp_all
  with reader_sees_committed [OF inv] show ?thesis by simp
qed

theorem running_reads_committed_witness:
  "\<exists>s. run [ReloadRequest tiny_bert', ReloadSwap, ReloadDone, Receive [] \<lparr>prompt_text = ''a''\<rparr> 0,
             Start 0, Resume 0] (server_init tiny_bert []) = Some s
       \<and> rq_phase (srv_reqs s ! 0) = Running tiny_bert' \<and> srv_history s = [tiny_bert, tiny_bert']
       \<and> tiny_bert' = last (srv_history s)"
proof -
  let ?evs = "[ReloadRequest tiny_bert', ReloadSwap, ReloadDone, Receive [] \<lparr>prompt_text = ''a''\<rparr> 0,
               Start 0, Resume 0] :: int event list"
  let ?s = "the (run ?evs (server_init tiny_bert []))"
  have r: "run ?evs (server_init tiny_bert []) = Some ?s"
    by (simp add: scenario_simps)
  have ph: "rq_phase (srv_reqs ?s ! 0) = Running tiny_bert'"
    by (simp add: scenario_simps tiny_bert'_def bert.equality)
  have "0 < length (srv_reqs ?s)" by (simp add: scenario_simps)
  with running_reads_committed [OF run_reach [OF srv_init r] _ ph] have "tiny_bert' = last (srv_history ?s)"
    by blast
  moreover have "srv_history ?s = [tiny_bert, tiny_bert']" by (simp add: scenario_simps)
  ultimately show ?thesis using r ph by blast
qed

text \<open>
  C4. No cross-talk: whatever the interleaving of requests and reloads, a request answered
  with embeddings v got exactly what the handler computes on its own prompt with one of
  the committed models.
\<close>

theorem answer_of_own_prompt:
  assumes "srv_reach s" and "i < length (srv_reqs s)" and "rq_phase (srv_reqs s ! i) = Answered v"
  shows "\<exists>b \<in> set (srv_history s). fst (predict_handler b (rq_prompt (srv_reqs s ! i)) []) = Ok v"
proof -
  have "running_ok s i" by (rule srv_invD(9) [OF srv_reach_inv [OF assms(1)] assms(2)])
  then obtain b where "b \<in> set (srv_history s)"
    and "phase_of (fst (predict_handler b (rq_prompt (srv_reqs s ! i)) [])) = Answered v"
    using assms(3) by (auto simp: running_ok_def handled_by_def)
  moreover have "phase_of r = Answered v \<Longrightarrow> r = Ok v" for r by (cases r) simp_all
  ultimately show ?thesis by blast
qed

theorem answer_of_own_prompt_witness:
  "\<exists>s. run [Receive [] \<lparr>prompt_text = ''a''\<rparr> 0, Start 0, Resume 0, Finish 0] (server_init tiny_bert []) = Some s
       \<and> rq_phase (srv_reqs s ! 0) = Answered \<lparr>ys = [[[0, 0], [0, 0], [0, 0]]]\<rparr>
       \<and> fst (predict_handler tiny_bert \<lparr>prompt_text = ''a''\<rparr> []) = Ok \<lparr>ys = [[[0, 0], [0, 0], [0, 0]]]\<rparr>"
proof -
  let ?evs = "[Receive [] \<lparr>prompt_text = ''a''\<rparr> 0, Start 0, Resume 0, Finish 0] :: int event list"
  let ?s = "the (run ?evs (server_init tiny_bert []))"
  have r: "run ?evs (server_init tiny_bert []) = Some ?s"
    by (simp add: scenario_simps tiny_predict_simps)
  have ph: "rq_phase (srv_reqs ?s ! 0) = Answered \<lparr>ys = [[[0, 0], [0, 0], [0, 0]]]\<rparr>"
    by (simp add: scenario_simps tiny_predict_simps upt_rec)
  have "0 < length (srv_reqs ?s)" by (simp add: scenario_simps tiny_predict_simps)
  with answer_of_own_prompt [OF run_reach [OF srv_init r] _ ph]
  obtain b where "b \<in> set (srv_history ?s)"
    and "fst (predict_handler b (rq_prompt (srv_reqs ?s ! 0)) []) = Ok \<lparr>ys = [[[0, 0], [0, 0], [0, 0]]]\<rparr>"
    by blast
  moreover have "srv_history ?s = [tiny_bert]" "rq_prompt (srv_reqs ?s ! 0) = \<lparr>prompt_text = ''a''\<rparr>"
    by (simp_all add: scenario_simps tiny_predict_simps)
  ultimately show ?thesis using r ph by auto
qed

text \<open>
  C5. A finished request, answered, failed or aborted by a panic, neither holds nor waits
  for the read guard: unwinding out of the handler drops the guard, so a panicking request
  cannot block reloads or other requests.
\<close>

theorem finished_holds_no_guard:
  assumes "srv_reach s" and "i < length (srv_reqs s)" and "finished (rq_phase (srv_reqs s ! i))"
  shows "Req i \<notin> set (lock_tasks (srv_lock s))"
  using finished_not_in_lock [OF srv_reach_inv [OF assms(1)] assms(2,3)] .

theorem finished_holds_no_guard_witness:
  "\<exists>s. run [Receive [] \<lparr>prompt_text = ''a''\<rparr> 0, Start 0, Resume 0, Finish 0]
              (server_init failing_tokenizer_bert []) = Some s
       \<and> rq_phase (srv_reqs s ! 0) = Aborted TokenizerError \<and> Req 0 \<notin> set (lock_tasks (srv_lock s))"
proof -
  let ?evs = "[Receive [] \<lparr>prompt_text = ''a''\<rparr> 0, Start 0, Resume 0, Finish 0] :: int event list"
  let ?s = "the (run ?evs (server_init failing_tokenizer_bert []))"
  have r: "run ?evs (server_init failing_tokenizer_bert []) = Some ?s"
    by (simp add: scenario_simps tiny_predict_simps)
  have ph: "rq_phase (srv_reqs ?s ! 0) = Aborted TokenizerError"
    by (simp add: scenario_simps tiny_predict_simps)
  have "0 < length (srv_reqs ?s)" by (simp add: scenario_simps tiny_predict_simps)
  with finished_holds_no_guard [OF run_reach [OF srv_init r]] ph r show ?thesis by auto
qed

text \<open>
  C6. Without a reload in progress (and fewer than MAX_READS requests), a request that
  asked for the read guard already holds it and the lock has no waiter: readers never wait
  for readers.
\<close>

theorem readers_never_wait_for_readers:
  assumes "srv_reach s" and "srv_reload s = Idle" and "length (srv_reqs s) \<le> max_reads"
    and "i < length (srv_reqs s)" and "rq_phase (srv_reqs s ! i) = Waiting"
  shows "holds (srv_lock s) (Req i) Read \<and> rw_waiters (srv_lock s) = []"
  using idle_waiting_holds [OF srv_reach_inv [OF assms(1)] assms(2-5)]
    idle_no_waiters [OF srv_reach_inv [OF assms(1)] assms(2,3)] by blast

theorem readers_never_wait_for_readers_witness:
  "\<exists>s. run [Receive [] \<lparr>prompt_text = ''a''\<rparr> 0, Receive [] \<lparr>prompt_text = ''b''\<rparr> 1, Start 0, Start 1]
              (server_init tiny_bert []) = Some s
       \<and> holds (srv_lock s) (Req 1) Read \<and> rw_waiters (srv_lock s) = []"
proof -
  let ?evs = "[Receive [] \<lparr>prompt_text = ''a''\<rparr> 0, Receive [] \<lparr>prompt_text = ''b''\<rparr> 1, Start 0, Start 1]
               :: int event list"
  let ?s = "the (run ?evs (server_init tiny_bert []))"
  have r: "run ?evs (server_init tiny_bert []) = Some ?s"
    by (simp add: scenario_simps)
  have "srv_reload ?s = Idle" "length (srv_reqs ?s) \<le> max_reads" "1 < length (srv_reqs ?s)"
    "rq_phase (srv_reqs ?s ! 1) = Waiting"
    by (simp_all add: scenario_simps)
  with readers_never_wait_for_readers [OF run_reach [OF srv_init r]] r show ?thesis by blast
qed

text \<open>
  C7. Progress: without a reload in progress, every received request is served by one
  fixed schedule, \<open>serve_schedule\<close>: finishing the handler that occupies its worker
  thread, if any, then starting, resuming and finishing it. The schedule runs to the end
  whatever other requests hold the read guard (readers share it), the request ends in a
  final phase (answered, error response or aborted) and it has given its guard back.
\<close>

theorem request_completes:
  assumes "srv_reach s" and "srv_reload s = Idle" and "length (srv_reqs s) \<le> max_reads"
    and "i < length (srv_reqs s)" and "rq_phase (srv_reqs s ! i) = Received"
  shows "\<exists>s'. run (serve_schedule s i) s = Some s' \<and> finished (rq_phase (srv_reqs s' ! i))
               \<and> Req i \<notin> set (lock_tasks (srv_lock s'))"
proof -
  have inv: "srv_inv s" by (rule srv_reach_inv [OF assms(1)])
  obtain s1 where s1: "run (map Finish (running_on s (rq_worker (srv_reqs s ! i)))) s = Some s1"
    "srv_reach s1" "srv_reload s1 = Idle" "length (srv_reqs s1) = length (srv_reqs s)"
    "srv_reqs s1 ! i = srv_reqs s ! i" "\<not> worker_busy s1 (rq_worker (srv_reqs s1 ! i))"
  proof (cases "worker_busy s (rq_worker (srv_reqs s ! i))")
    case False
    then show ?thesis using that [of s] assms(1,2) by (simp add: running_on_free)
  next
    case True
    then obtain j b where j: "j < length (srv_reqs s)" "rq_worker (srv_reqs s ! j) = rq_worker (srv_reqs s ! i)"
      "rq_phase (srv_reqs s ! j) = Running b"
      unfolding worker_busy_iff by (metis is_running.elims(2))
    have ji: "j \<noteq> i" using j(3) assms(5) by auto
    have ro: "running_on s (rq_worker (srv_reqs s ! i)) = [j]"
      using running_on_single [OF srv_invD(7) [OF inv] j(1,2)] j(3) by simp
    obtain s1 where f: "finish j s = Some s1" "finished (rq_phase (srv_reqs s1 ! j))"
      "srv_reload s1 = srv_reload s" "length (srv_reqs s1) = length (srv_reqs s)"
      "\<And>k. k \<noteq> j \<Longrightarrow> srv_reqs s1 ! k = srv_reqs s ! k"
      using finish_enabled [OF j(1,3)] by metis
    have "\<not> is_running (rq_phase (srv_reqs s1 ! j))"
      using f(2) by (cases "rq_phase (srv_reqs s1 ! j)") simp_all
    moreover have si: "srv_reqs s1 ! i = srv_reqs s ! i" using f(5) ji by simp
    ultimately have "\<not> worker_busy s1 (rq_worker (srv_reqs s1 ! i))"
      using free_after_finish [OF inv j(1) _ f(4,5)] j(2,3) by simp
    moreover have "srv_reach s1" using srv_next [of s "Finish j" s1] assms(1) f(1) by simp
    ultimately show ?thesis using that [of s1] f(1,3,4) si assms(2) ro by simp
  qed
  have "srv_reload s1 = Idle" "length (srv_reqs s1) \<le> max_reads" "i < length (srv_reqs s1)"
    "rq_phase (srv_reqs s1 ! i) = Received"
    using s1(3-5) assms(3-5) by simp_all
  then obtain s' where s': "run [Start i, Resume i, Finish i] s1 = Some s'" "finished (rq_phase (srv_reqs s' ! i))"
    using serve_from_free [OF s1(2)] s1(6) by blast
  have "srv_reach s'" by (rule run_reach [OF s1(2) s'(1)])
  moreover have "i < length (srv_reqs s')"
    using s'(1) s1(4) assms(4) by (auto simp: start_def resume_def finish_def split: if_splits phase.splits prod.splits option.splits)
  ultimately have "Req i \<notin> set (lock_tasks (srv_lock s'))"
    using finished_not_in_lock [OF srv_reach_inv] s'(2) by blast
  then show ?thesis using s1(1) s' by (simp add: serve_schedule_def run_append)
qed

theorem request_completes_witness:
  "\<exists>s'. run (serve_schedule (the (run [Receive [] \<lparr>prompt_text = ''a''\<rparr> 0, Receive [] \<lparr>prompt_text = ''b''\<rparr> 0,
                                      Start 0, Resume 0] (server_init tiny_bert []))) 1)
              (the (run [Receive [] \<lparr>prompt_text = ''a''\<rparr> 0, Receive [] \<lparr>prompt_text = ''b''\<rparr> 0,
                         Start 0, Resume 0] (server_init tiny_bert []))) = Some s'
        \<and> finished (rq_phase (srv_reqs s' ! 1)) \<and> Req 1 \<notin> set (lock_tasks (srv_lock s'))"
proof -
  let ?evs = "[Receive [] \<lparr>prompt_text = ''a''\<rparr> 0, Receive [] \<lparr>prompt_text = ''b''\<rparr> 0,
               Start 0, Resume 0] :: int event list"
  let ?s = "the (run ?evs (server_init tiny_bert []))"
  have r: "run ?evs (server_init tiny_bert []) = Some ?s"
    by (simp add: scenario_simps)
  have "srv_reload ?s = Idle" "length (srv_reqs ?s) \<le> max_reads" "1 < length (srv_reqs ?s)"
    "rq_phase (srv_reqs ?s ! 1) = Received"
    by (simp_all add: scenario_simps)
  with request_completes [OF run_reach [OF srv_init r]] show ?thesis by blast
qed

text \<open>
  C8. A requested reload is eventually admitted (spec 4.4): from any reachable state in
  which the reloader asked for the write guard, finishing the requests that hold the read
  guard (after resuming the granted ones) lets it take the guard, replace the model and
  commit it; the lock then serves the new model.
\<close>

theorem reload_completes:
  assumes "srv_reach s" and "srv_reload s = Requested b'"
  shows "\<exists>es s'. run es s = Some s' \<and> srv_reload s' = Idle
                 \<and> last (srv_history s') = b' \<and> rw_value (srv_lock s') = b'"
proof -
  obtain es s1 where s1: "run es s = Some s1" "srv_reach s1" "srv_reload s1 = Requested b'"
    "holds (srv_lock s1) Reloader Write"
    using reload_gets_guard [OF assms] by blast
  obtain s2 where s2: "reload_swap s1 = Some s2" "srv_reload s2 = Swapping b'"
    using s1(3,4) by (simp add: reload_swap_def)
  obtain s3 where s3: "reload_done s2 = Some s3" "srv_reload s3 = Idle"
    "srv_history s3 = srv_history s2 @ [b']"
    using s2(2) by (simp add: reload_done_def)
  have "srv_reach s3"
    using srv_next [OF srv_next [OF s1(2), of ReloadSwap s2] , of ReloadDone s3] s2(1) s3(1) by simp
  then have "rw_value (srv_lock s3) = last (srv_history s3)"
    using srv_invD(6) [OF srv_reach_inv] s3(2) by (fastforce simp: reload_ok_def)
  then show ?thesis
    using s1(1) s2(1) s3 by (intro exI [of _ "es @ [ReloadSwap, ReloadDone]"] exI [of _ s3]) (simp add: run_append)
qed

theorem reload_completes_witness:
  "\<exists>es s'. run es (the (run [Receive [] \<lparr>prompt_text = ''a''\<rparr> 0, Start 0, Resume 0, ReloadRequest tiny_bert']
                         (server_init tiny_bert []))) = Some s'
            \<and> srv_reload s' = Idle \<and> last (srv_history s') = tiny_bert' \<and> rw_value (srv_lock s') = tiny_bert'"
proof -
  let ?evs = "[Receive [] \<lparr>prompt_text = ''a''\<rparr> 0, Start 0, Resume 0, ReloadRequest tiny_bert'] :: int event list"
  let ?s = "the (run ?evs (server_init tiny_bert []))"
  have r: "run ?evs (server_init tiny_bert []) = Some ?s"
    by (simp add: scenario_simps)
  have "srv_reload ?s = Requested tiny_bert'" by (simp add: scenario_simps)
  with reload_completes [OF run_reach [OF srv_init r]] show ?thesis by blast
qed

text \<open>
  C9. The split of the request path at the await point refines the sequential model: a
  request served alone on a fresh server ends in the phase given by serve_request, the
  output is exactly what serve_request prints, and the lock is back in its initial state.
\<close>

theorem single_request_refines_serve:
  "\<exists>s'. run [Receive h p 0, Start 0, Resume 0, Finish 0] (server_init b out) = Some s'
        \<and> rq_phase (srv_reqs s' ! 0) = phase_of (fst (serve_request b h p out))
        \<and> srv_out s' = snd (serve_request b h p out)
        \<and> srv_lock s' = rwlock_new b"
proof -
  let ?out1 = "out @ [PayloadSize (payload_size h)]"
  obtain r out' where leave: "middleware_leave (predict_handler b p) ?out1 = (r, out')"
    by fastforce
  have serve: "serve_request b h p out = (r, out')"
    using leave by (simp add: serve_request_def middleware_split middleware_enter_def io_bind_println)
  have "run [Receive h p 0, Start 0, Resume 0, Finish 0] (server_init b out) =
          Some \<lparr>srv_lock = rwlock_new b,
                srv_reqs = [\<lparr>rq_headers = h, rq_prompt = p, rq_worker = 0, rq_phase = phase_of r\<rparr>],
                srv_out = out', srv_workers = WORKERS, srv_reload = Idle, srv_history = [b],
                srv_rejected = []\<rparr>"
    using leave
    by (simp add: server_init_def receive_def start_def resume_def finish_def worker_busy_def
        set_phase_def WORKERS_def middleware_enter_def println_def holds_acquire_new
        acquire_release_new rw_value_new)
  then show ?thesis using serve by simp
qed

text \<open>
  C10. Start-up (main): if Bert::new fails, main panics at its unwrap before printing
  anything and never serves; otherwise it prints the PID and, when the address binds,
  serves from a fresh state holding the loaded model with 8 workers; a failed bind is an
  I/O error.
\<close>

theorem main_startup:
  "main E bind_ok out =
     (case bert_new E None None False False of
        Ok b \<Rightarrow> (if bind_ok then (Ok (server_init b (out @ [CurrentPid])), out @ [CurrentPid])
                 else (Err IoError, out @ [CurrentPid]))
      | Err e \<Rightarrow> (Panicked e, out)
      | Panicked e \<Rightarrow> (Panicked e, out))"
  by (cases "bert_new E None None False False")
    (simp_all add: main_def io_bind_lift io_bind_println)

text \<open>
  C12. Contrary to the spec's error policy, the handler never sends an error response: in
  every reachable state no request ends in ErrorResponse, because the handler unwraps
  every failure; a failed request is aborted instead. (The only error responses are the
  extractor's, for bodies that never reach the handler, recorded in srv_rejected.)
\<close>

theorem no_error_response:
  assumes "srv_reach s" and "i < length (srv_reqs s)"
  shows "rq_phase (srv_reqs s ! i) \<noteq> ErrorResponse e"
proof
  assume ph: "rq_phase (srv_reqs s ! i) = ErrorResponse e"
  have "running_ok s i" by (rule srv_invD(9) [OF srv_reach_inv [OF assms(1)] assms(2)])
  then have "handled_by s (srv_reqs s ! i)" using ph by (simp add: running_ok_def)
  then obtain b where "b \<in> set (srv_history s)"
    and "phase_of (fst (predict_handler b (rq_prompt (srv_reqs s ! i)) [])) = ErrorResponse e"
    using ph by (auto simp: handled_by_def)
  moreover have "phase_of r = ErrorResponse e \<Longrightarrow> r = Err e" for r by (cases r) simp_all
  ultimately show False using handler_never_err by metis
qed

theorem no_error_response_witness:
  "\<exists>s. run [Receive [] \<lparr>prompt_text = ''a''\<rparr> 0, Start 0, Resume 0, Finish 0]
              (server_init failing_tokenizer_bert []) = Some s
       \<and> rq_phase (srv_reqs s ! 0) \<noteq> ErrorResponse TokenizerError"
proof -
  let ?evs = "[Receive [] \<lparr>prompt_text = ''a''\<rparr> 0, Start 0, Resume 0, Finish 0] :: int event list"
  let ?s = "the (run ?evs (server_init failing_tokenizer_bert []))"
  have r: "run ?evs (server_init failing_tokenizer_bert []) = Some ?s"
    by (simp add: scenario_simps tiny_predict_simps)
  have "0 < length (srv_reqs ?s)" by (simp add: scenario_simps tiny_predict_simps)
  with no_error_response [OF run_reach [OF srv_init r]] r show ?thesis by blast
qed

text \<open>
  C13. The lock is used at the right types: every task the lock knows, holding or queued,
  holds or asks for the mode of its kind, read for a request and write for the reloader.
\<close>

theorem lock_entries_typed:
  assumes "srv_reach s" and "h \<in> set (rw_holders (srv_lock s) @ rw_waiters (srv_lock s))"
  shows "snd h = task_mode (fst h)"
  using srv_invD(2) [OF srv_reach_inv [OF assms(1)]] assms(2) by (simp add: lock_modes_def)

theorem lock_entries_typed_witness:
  "\<exists>s. run [Receive [] \<lparr>prompt_text = ''a''\<rparr> 0, Start 0, ReloadRequest tiny_bert'] (server_init tiny_bert []) = Some s
       \<and> rw_holders (srv_lock s) @ rw_waiters (srv_lock s) = [(Req 0, Read), (Reloader, Write)]
       \<and> snd (Reloader, Write) = task_mode Reloader"
proof -
  let ?evs = "[Receive [] \<lparr>prompt_text = ''a''\<rparr> 0, Start 0, ReloadRequest tiny_bert'] :: int event list"
  let ?s = "the (run ?evs (server_init tiny_bert []))"
  have r: "run ?evs (server_init tiny_bert []) = Some ?s"
    by (simp add: scenario_simps)
  have l: "rw_holders (srv_lock ?s) @ rw_waiters (srv_lock ?s) = [(Req 0, Read), (Reloader, Write)]"
    by (simp add: scenario_simps)
  have "snd (Reloader, Write) = task_mode (fst (Reloader, Write))"
    by (rule lock_entries_typed [OF run_reach [OF srv_init r]]) (unfold l, simp)
  then show ?thesis using r l by (intro exI [of _ ?s] conjI) simp_all
qed

text \<open>
  C39. A request whose body the Json<Prompt> extractor refuses never reaches the handler:
  the step adds no request and leaves the lock alone (no guard is asked for), the
  middleware wrapped around the route still prints the payload size and the elapsed time
  around the extractor's error response, and the refusal is recorded with its worker and
  error.
\<close>

theorem rejected_body_not_served:
  assumes "json_extract h body = Inl e" and "step (ReceiveBody h body w) s = Some s'"
  shows "srv_reqs s' = srv_reqs s \<and> srv_lock s' = srv_lock s
         \<and> srv_out s' = srv_out s @ [PayloadSize (payload_size h), RequestTook]
         \<and> srv_rejected s' = srv_rejected s @ [(w, e)]"
  using assms
  by (auto simp: receive_body_def reject_def middleware_apply io_return_def
           split: if_splits)

theorem rejected_body_not_served_witness:
  "\<exists>s'. json_extract [] [] = Inl ContentType
        \<and> step (ReceiveBody [] [] 0) (server_init tiny_bert []) = Some s'
        \<and> srv_reqs s' = [] \<and> srv_out s' = [PayloadSize 0, RequestTook]"
proof -
  have e: "json_extract [] [] = Inl ContentType" by (simp add: json_extract_def content_type_json_def)
  let ?s = "the (step (ReceiveBody [] [] 0) (server_init tiny_bert []))"
  have r: "step (ReceiveBody [] [] 0) (server_init tiny_bert []) = Some ?s"
    using e by (simp add: receive_body_def reject_def middleware_apply io_return_def scenario_simps)
  have "srv_reqs ?s = srv_reqs (server_init tiny_bert [])
        \<and> srv_out ?s = srv_out (server_init tiny_bert []) @ [PayloadSize (payload_size []), RequestTook]"
    using rejected_body_not_served [OF e r] by simp
  then show ?thesis using e r by (intro exI [of _ ?s]) (simp add: server_init_def payload_size_def)
qed

text \<open>
  C40. The wire-level event refines the prompt-level one: a request declared as JSON, within
  the size limit, whose body is an object printed by a JSON writer (UTF-8 keys) with a
  string member text s, is received exactly as the request carrying the prompt s, whatever
  other members the object has.
\<close>

theorem receive_body_refines_receive:
  assumes "content_type_json h" and "case content_length h of None \<Rightarrow> True | Some n \<Rightarrow> n \<le> json_limit"
    and "length (print_json (JObj kvs)) \<le> json_limit"
    and "json_ok (JObj kvs)" and "\<forall>kv \<in> set kvs. utf8_valid (fst kv)"
    and "fields_text None kvs = Inr (Some s)"
  shows "step (ReceiveBody h (print_json (JObj kvs)) w) srv
           = step (Receive h \<lparr>prompt_text = string_of_bytes s\<rparr> w) srv"
proof -
  have "deserialize_prompt (print_json (JObj kvs) @ []) = Inr (\<lparr>prompt_text = string_of_bytes s\<rparr>, [])"
    using deserialize_prompt_object [of kvs "[]"] assms(4-6) by simp
  then have "from_slice_prompt (print_json (JObj kvs)) = Inr \<lparr>prompt_text = string_of_bytes s\<rparr>"
    by (simp add: from_slice_prompt_def)
  then have "json_extract h (print_json (JObj kvs)) = Inr \<lparr>prompt_text = string_of_bytes s\<rparr>"
    using assms(1-3) by (auto simp: json_extract_def split: option.splits)
  then show ?thesis by (simp add: receive_body_def)
qed

theorem receive_body_refines_receive_witness:
  "step (ReceiveBody [(''content-type'', [97, 47, 106, 115, 111, 110])]
           (print_json (JObj [([120], JBool True), (text_key, JStr [104, 105])])) 0)
        (server_init tiny_bert [])
   = step (Receive [(''content-type'', [97, 47, 106, 115, 111, 110])] \<lparr>prompt_text = string_of_bytes [104, 105]\<rparr> 0)
        (server_init tiny_bert [])"
proof -
  note ct = content_type_application_json
  show ?thesis
    using receive_body_refines_receive [OF ct, of "[([120], JBool True), (text_key, JStr [104, 105])]"
        "[104, 105]" 0 "server_init tiny_bert []"]
    by (simp add: content_length_def json_limit_def text_key_def json_string_def json_escape_def
        escape_out_def)
qed

end
