(* ===== verification/Spec2Isabelle.thy ===== *)
theory Spec2Isabelle
  imports Dispatch_Props
begin

text \<open>
  \<^bold>\<open>A verification development of rs-hf-serve.\<close>
  The program (src/src/model.rs and src/src/main.rs) is an HTTP embedding service: at
  start-up \<open>main\<close> loads a BERT sentence encoder with \<open>Bert::new\<close> from the Hugging Face hub,
  wraps it in a tokio \<open>RwLock\<close> and serves \<open>POST /predict\<close> on 8 actix workers; each
  request passes through the middleware \<open>middleware_time_elapsed\<close> (payload size and
  elapsed time on standard output), takes the read guard, runs \<open>Bert::predict\<close> on its
  text (tokenize, build the id tensors, forward pass) and answers the nested vectors of
  \<open>to_vec3\<close>. The model is shallow: every Rust function is a HOL function of the same name
  (suffixed where HOL has the name), fallible code returns \<open>'a outcome\<close>
  (\<open>Ok\<close>, \<open>Err\<close>, \<open>Panicked\<close>: \<open>?\<close> is \<open>and_then\<close>, \<open>.unwrap()\<close> is \<open>unwrap\<close>), and a
  computation that prints is an \<open>'a io\<close>, a function from the lines printed so far.

  \<^bold>\<open>Theories and what they model.\<close>
  \<^item> Prelude: \<open>outcome\<close>, the printed lines (\<open>log\<close>, one constructor per \<open>println!\<close>),
    the \<open>io\<close> combinators, the Rust errors, \<open>checked_mul\<close>/\<open>checked_add\<close> on words; the
    shared simp sets \<open>outcome_simps\<close> and \<open>io_simps\<close>.
  \<^item> Tensor: the candle calls of the sources (\<open>Tensor::new\<close>, \<open>unsqueeze\<close>, \<open>zeros_like\<close>,
    \<open>to_vec3\<close>) on a row-major shape/data model.
  \<^item> Tokenizer: the configuration calls of \<open>Bert::new\<close> (\<open>with_padding\<close>,
    \<open>with_truncation\<close>) and \<open>encode(prompt, true)\<close> (truncate, special tokens, pad);
    segmentation itself is the opaque field \<open>tk_model\<close>.
  \<^item> Bert: \<open>Bert::new\<close> (model.rs lines 26--88) step by step over the record \<open>hub_env\<close> of
    its collaborators (hub API, file reading, JSON parsing, tokenizer and weight loading,
    \<open>BertModel::load\<close>), and \<open>Bert::predict\<close> (lines 90--109). The encoder is opaque; its
    contract is \<open>forward_spec\<close> (shapes, and failure beyond \<open>max_position_embeddings\<close>).
  \<^item> Header: the payload size of the middleware, \<open>HeaderValue::to_str\<close> and
    \<open>usize::from_str\<close> with both loops of \<open>from_str_radix\<close> on 64-bit words.
  \<^item> Server: the \<open>predict\<close> handler body (main.rs 28--44) and the middleware (46--66) for
    one request in isolation (\<open>serve_request\<close>).
  \<^item> RwLock: tokio's \<open>RwLock\<close> as the semaphore it is built on: \<open>MAX_READS\<close> permits, a
    read guard takes 1, a write guard all; a FIFO queue of waiters served from its head on
    release (\<open>grant\<close>); step relation \<open>lock_step\<close>, reachability \<open>lock_reach\<close>, invariant
    \<open>lock_inv\<close> (permits conserved, the queue head cannot be served).
  \<^item> Json_Lex: serde_json's lexer on the body bytes (whitespace, \<open>null\<close>/\<open>true\<close>/
    \<open>false\<close>, numbers, strings with escapes, surrogate pairs and the UTF-8 check) and the
    writer's string escaping.
  \<^item> Json_Value: serde_json's \<open>ignore_value\<close> loop (an explicit stack of open brackets,
    three mutually recursive functions with a measure), the entry points the derived code
    calls (\<open>next_key\<close>, \<open>parse_object_colon\<close>, \<open>deserialize_string\<close>, \<open>end_map\<close>,
    \<open>end_seq\<close>), JSON documents \<open>json\<close> and the compact writer \<open>print_json\<close>.
  \<^item> Json_Read: a reader of whole JSON documents (\<open>read_value\<close>, \<open>read_json\<close>), the
    one a client applies to the answer, built from the same lexer pieces. It is not code
    of the repository but the means of stating what the written bytes mean: with it the
    writer's output and the response are stated as round trips.
  \<^item> Wire: the derived \<open>Deserialize\<close> of \<open>Prompt\<close> (\<open>visit_map\<close>, \<open>visit_seq\<close>,
    \<open>from_slice_prompt\<close>), actix's \<open>Json\<close> extractor (content type, the 2 MiB limit,
    \<open>json_extract\<close>) and the serialization of \<open>Embeddings\<close>
    (\<open>serialize_embeddings\<close>); the field contract \<open>fields_text\<close> of the derive.
  \<^item> Dispatch: the concurrent server. State \<open>server\<close>: the lock over the model, the
    requests in flight with their phase and worker, standard output, the reload status,
    the history of committed models and the refused bodies. Events \<open>receive_body\<close>
    (the extractor accepts the body and the request is received, or refuses it and the
    worker answers the error: \<open>reject\<close>, which runs \<open>middleware_time_elapsed\<close>
    around the error response actix's handler service returns), \<open>receive\<close>, \<open>start\<close> (middleware's first half
    and \<open>read()\<close>), \<open>resume\<close> (the guard is granted), \<open>finish\<close> (handler, return or
    unwinding through the middleware, guard drop), and the reload path of the spec;
    \<open>step\<close>/\<open>run\<close> give every interleaving; \<open>main\<close> is the start-up.
  \<^item> Dispatch_Safety: the invariant \<open>srv_inv\<close> of the reachable states and its
    preservation by every event; the progress lemmas, and the schedule
    \<open>serve_schedule\<close> that serves a received request (finish the handler on its
    worker, then start, resume and finish it). Dispatch_Props: the properties of
    the concurrent server with their witnesses.

  \<^bold>\<open>What the lemmas show.\<close>
  End to end (C1): a successful load followed by \<open>predict\<close> gives a \<open>[1, n, H]\<close> tensor with
  \<open>H\<close> from \<open>config.json\<close>. Concurrency (C2--C10, C12, C13): exclusion of reload and requests, no
  torn snapshot, no cross-talk, guards released by finished and panicked requests, readers
  never wait for readers, every received request is served by \<open>serve_schedule\<close> whatever
  other readers hold the guard and gives its guard back, a requested reload completes,
  the concurrent request path refines the sequential one, start-up, no error response from
  the handler, the lock used at the right modes. The writer's round trip (C11): what
  \<open>print_json\<close> prints is read back as the same document. The lock (C14--C16): write
  exclusion, the \<open>MAX_READS\<close> bound, and fairness: while a writer waits, a step grants
  guards only to tasks queued ahead of it, and new arrivals queue behind it. The model service (C17--C23): shape and every branch of
  \<open>predict\<close>, inputs too long for the encoder, the state and configuration after
  \<open>Bert::new\<close>, its first failure, no panic of its own. The payload size (C24--C28):
  \<open>usize::from_str\<close> against the decimal reading, the fast path against the checked
  path, overflow at \<open>2^64\<close>, round trip with decimal printing. \<open>to_vec3\<close> (C29) and the
  request path of one request, success and panic (C30, C31). The wire format (C32--C40): the
  derived \<open>Deserialize\<close> of \<open>Prompt\<close> refines the field contract on every object the
  writer prints, \<open>ignore_value\<close> terminates on every input, consumes input and skips
  exactly a written document, a client reads the response as the object whose member
  \<open>ys\<close> is the three-level array of the embeddings, a prompt comes only
  from a JSON body within the limit and its text is UTF-8, an over-long body is a 413
  (exactly above 2,097,152 bytes), the one-element array form is accepted, a refused body
  never reaches the handler, and a request whose body is a printed object with member
  \<open>text\<close> s is received as the prompt s.

  \<^bold>\<open>Bounds.\<close> Words are at their Rust width (\<open>usize\<close> 64 bits, \<open>u32\<close> ids, bytes). The
  fast path of \<open>from_str_radix\<close> is taken for at most 16 digits, the value of
  \<open>can_not_overflow\<close> for base 10 on 64 bits. \<open>MAX_READS = u32::MAX >> 3 = 536870911\<close>; C6
  and C7 assume at most that many requests, which is what makes readers never queue.
  The document reader of Json_Read uses fuel: every call consumes input or hands over to
  one that does, so twice the input length plus one is enough (\<open>read_value_total\<close>),
  more fuel never changes a result (\<open>read_value_mono\<close>), and \<open>read_json\<close> uses that
  much.
  The witnesses use all-MiniLM-L6-v2's configuration (384 hidden, 512 positions) and a
  hidden size of 2 for whole-request runs. No model of the code needs fuel: every loop is structural
  or a \<open>function\<close> with a measure on the input left (the JSON string readers, the
  UTF-8 check, \<open>ignore_value\<close> with three times the remaining length plus 2, 1 or 0,
  the derived \<open>visit_map\<close>). The body limit is actix's default \<open>JsonConfig\<close> limit,
  2,097,152 bytes.

  \<^bold>\<open>Not modelled.\<close> The numerical encoder (opaque, a contract instead), the segmentation
  of the tokenizer, the hub's cache and network, the decoding of the artifact files
  (\<open>config.json\<close> and \<open>tokenizer.json\<close> are opaque functions of \<open>hub_env\<close>), the float
  formatter of the response (a parameter: number tokens, or \<open>None\<close> for non-finite
  values), the parameters of a media type and compressed request bodies, the TCP listener,
  HTTP parsing and actix's worker restarts, wall-clock times (the timing lines carry no
  value), and the process id. That a worker thread runs one handler at a time is an
  assumption of the model (the \<open>worker_busy\<close> guard of \<open>start\<close> and \<open>resume\<close>), not a
  property of the code. The reload path is not in the sources: it is modelled from
  spec 4.4 so that exclusion can be stated.
\<close>

text \<open>
  C1. End to end through the model service: when \<open>Bert::new\<close> succeeds with collaborators
  that meet their contracts, \<open>predict\<close> on any text whose token count \<open>n\<close> (segment
  ids plus special tokens) lies in \<open>1..max_position_embeddings\<close> returns an embedding
  tensor of shape \<open>[1, n, H]\<close>, where \<open>H\<close> is the hidden size of the configuration read
  from the requested repository's \<open>config.json\<close>, whatever the flags passed to
  \<open>Bert::new\<close>.
\<close>

theorem load_then_predict_shape:
  assumes load: "bert_new E model_id revision use_torch approximate_gelu = Ok b"
    and contract: "loads_config E"
    and seg: "tk_model (tokenizer b) prompt = Ok ids"
    and pos: "0 < added_tokens (tokenizer b) + length ids"
    and fits: "added_tokens (tokenizer b) + length ids \<le> max_position_embeddings (bm_config (model b))"
  shows "\<exists>config_f config_text cfg ys.
            api_get E (requested_repo model_id revision) ''config.json'' = Ok config_f
          \<and> read_to_string E config_f = Ok config_text \<and> config_from_str E config_text = Ok cfg
          \<and> predict b prompt out = (Ok ys, out @ [LoadedAndEncoded, ForwardPassTook])
          \<and> is_tensor ys \<and> shape ys = [1, added_tokens (tokenizer b) + length ids, hidden_size cfg]"
proof -
  obtain config_f tok_f weights_f config_text cfg tk0 vb where
    fetch: "fetch_artifacts E (requested_repo model_id revision) use_torch = Ok (config_f, tok_f, weights_f)"
    and parsed: "read_to_string E config_f = Ok config_text" "config_from_str E config_text = Ok cfg"
    and built: "bert_load E vb (apply_gelu_flag approximate_gelu cfg) = Ok (model b)"
    and tk: "tokenizer b = tk0\<lparr>tk_padding := None, tk_truncation := None\<rparr>"
    using load by (rule bert_new_Ok_E)
  have m: "bm_config (model b) = apply_gelu_flag approximate_gelu cfg" "forward_spec (model b)"
    using contract built by (simp_all add: loads_config_def)
  have "hidden_size (bm_config (model b)) = hidden_size cfg"
    using m(1) by (simp add: apply_gelu_flag_def)
  moreover have "unconfigured (tokenizer b)"
    using tk by (simp add: unconfigured_def)
  ultimately obtain ys where
    "predict b prompt out = (Ok ys, out @ [LoadedAndEncoded, ForwardPassTook])"
    "is_tensor ys" "shape ys = [1, added_tokens (tokenizer b) + length ids, hidden_size cfg]"
    using predict_in_bounds [OF _ m(2) seg pos fits, of out] by auto
  with fetch parsed show ?thesis
    by (auto simp: fetch_artifacts_Ok_iff)
qed

theorem load_then_predict_shape_witness:
  "\<exists>config_f config_text cfg ys.
      api_get toy_env (requested_repo None None) ''config.json'' = Ok config_f
    \<and> read_to_string toy_env config_f = Ok config_text \<and> config_from_str toy_env config_text = Ok cfg
    \<and> predict toy_bert ''Hello'' [] = (Ok ys, [LoadedAndEncoded, ForwardPassTook])
    \<and> is_tensor ys \<and> shape ys = [1, 7, hidden_size cfg]"
proof -
  let ?ids = "map (\<lambda>c. of_nat (of_char c)) ''Hello'' :: u32 list"
  have seg: "tk_model (tokenizer toy_bert) ''Hello'' = Ok ?ids"
    by (simp add: toy_bert_def toy_tokenizer_def)
  have n: "added_tokens (tokenizer toy_bert) + length ?ids = 7"
    by (simp add: toy_bert_def toy_tokenizer_def added_tokens_def)
  have fits: "added_tokens (tokenizer toy_bert) + length ?ids
                \<le> max_position_embeddings (bm_config (model toy_bert))"
    by (simp add: toy_bert_def toy_tokenizer_def added_tokens_def minilm_config_def)
  from load_then_predict_shape [OF toy_bert_new toy_env_loads_config seg _ fits, of "[]"] n
  show ?thesis by simp
qed

end
